theory Spec2Isabelle
  imports
    Complex_Main
    "HOL-Library.Char_ord"
    "HOL-Library.List_Lexorder"
    "HOL-Library.Product_Lexorder"
begin

section \<open>Configuration (bot.py, lines 19-33)\<close>

definition MAX_REPORT_VIDEOS :: nat where
  "MAX_REPORT_VIDEOS = 10"

definition RATE_LIMIT_DELAY :: real where
  "RATE_LIMIT_DELAY = 1 / 2"

definition REPORT_COOLDOWN :: real where
  "REPORT_COOLDOWN = 30"

definition DELETE_COOLDOWN :: real where
  "DELETE_COOLDOWN = 60"

section \<open>The store (bot.py, lines 64-101)\<close>

text \<open>
  Table \<open>videos\<close>, one record per row, columns in the order of the
  \<^verbatim>\<open>CREATE TABLE\<close> statement. The table is a list in insertion (rowid) order.
  Telegram identifiers are Python integers (chat ids of groups are negative), texts are
  strings.
\<close>

record video_row =
  file_unique_id :: string
  file_id :: string
  count :: int
  first_seen :: string
  chat_id :: int
  message_id :: int

text \<open>
  Table \<open>report_messages\<close>. The \<open>id\<close> column is \<^verbatim>\<open>INTEGER PRIMARY KEY
  AUTOINCREMENT\<close>: every insert takes one more than the largest id ever handed out, which
  the store keeps in \<open>report_seq\<close>.
\<close>

record report_row =
  rm_id :: int
  rm_chat_id :: int
  rm_message_id :: int
  report_type :: string
  created_at :: string

text \<open>
  The whole mutable state of the process: both tables and the two module-level cooldown
  dictionaries \<open>last_report_usage\<close> and \<open>last_delete_usage\<close>. Timestamps are the
  seconds of \<^verbatim>\<open>datetime.now().timestamp()\<close>, taken as real numbers.
\<close>

record bot =
  videos :: "video_row list"
  report_messages :: "report_row list"
  report_seq :: int
  last_report_usage :: "int \<rightharpoonup> real"
  last_delete_usage :: "int \<rightharpoonup> real"

definition initial_bot :: bot where
  "initial_bot =
     \<lparr>videos = [], report_messages = [], report_seq = 0,
      last_report_usage = Map.empty, last_delete_usage = Map.empty\<rparr>"

text \<open>
  \<^verbatim>\<open>PRIMARY KEY(file_unique_id, message_id)\<close>: the constraint every state of the table
  satisfies.
\<close>

definition video_key :: "video_row \<Rightarrow> string \<times> int" where
  "video_key r = (file_unique_id r, message_id r)"

definition primary_key_ok :: "video_row list \<Rightarrow> bool" where
  "primary_key_ok vs = distinct (map video_key vs)"

text \<open>\<^verbatim>\<open>INSERT OR IGNORE INTO videos VALUES (...)\<close>: a row whose key is taken is dropped.\<close>

definition insert_or_ignore :: "video_row \<Rightarrow> video_row list \<Rightarrow> video_row list" where
  "insert_or_ignore r vs = (if video_key r \<in> set (map video_key vs) then vs else vs @ [r])"

text \<open>\<^verbatim>\<open>SELECT COUNT(*) FROM videos WHERE file_unique_id = ?\<close>\<close>

definition count_for :: "video_row list \<Rightarrow> string \<Rightarrow> int" where
  "count_for vs unique_id = int (length (filter (\<lambda>r. file_unique_id r = unique_id) vs))"

text \<open>\<^verbatim>\<open>UPDATE videos SET count = ? WHERE file_unique_id = ?\<close>\<close>

definition update_count :: "int \<Rightarrow> string \<Rightarrow> video_row list \<Rightarrow> video_row list" where
  "update_count total_for_file unique_id vs =
     map (\<lambda>r. if file_unique_id r = unique_id then r\<lparr>count := total_for_file\<rparr> else r) vs"

section \<open>Incoming updates\<close>

text \<open>
  What the handlers read of a Telegram update: \<open>message_video\<close> is
  \<open>(file_id, file_unique_id)\<close> of \<^verbatim>\<open>update.message.video\<close>, and \<open>None\<close> when the
  update has no message or the message has no video.
\<close>

record update =
  message_video :: "(string \<times> string) option"
  message_message_id :: int
  effective_chat_id :: int
  effective_user_id :: int

section \<open>video\_handler (bot.py, lines 107-150)\<close>

text \<open>
  \<open>now\<close> is \<^verbatim>\<open>datetime.now().isoformat()\<close> at the time of the call. Storage errors,
  which the handler logs and swallows, are outside the model: every statement succeeds.
\<close>

definition video_handler :: "bot \<Rightarrow> update \<Rightarrow> string \<Rightarrow> bot" where
  "video_handler s u now =
     (case message_video u of
        None \<Rightarrow> s
      | Some (fid, unique_id) \<Rightarrow>
          let vs1 = insert_or_ignore
                      \<lparr>file_unique_id = unique_id, file_id = fid, count = 0, first_seen = now,
                       chat_id = effective_chat_id u, message_id = message_message_id u\<rparr>
                      (videos s);
              total_for_file = count_for vs1 unique_id
          in s\<lparr>videos := update_count total_for_file unique_id vs1\<rparr>)"

text \<open>A sequence of deliveries, each with the clock reading at its arrival.\<close>

fun video_handler_all :: "bot \<Rightarrow> (update \<times> string) list \<Rightarrow> bot" where
  "video_handler_all s [] = s"
| "video_handler_all s ((u, now) # rest) = video_handler_all (video_handler s u now) rest"

text \<open>The denormalisation invariant: every row carries the size of its group.\<close>

definition count_consistent :: "video_row list \<Rightarrow> bool" where
  "count_consistent vs = (\<forall>r \<in> set vs. count r = count_for vs (file_unique_id r))"

section \<open>The command gate (bot.py, lines 156-166 and 234-244)\<close>

text \<open>Python's \<^verbatim>\<open>int(x)\<close> on a float: truncation toward zero.\<close>

definition py_int :: "real \<Rightarrow> int" where
  "py_int x = (if 0 \<le> x then \<lfloor>x\<rfloor> else \<lceil>x\<rceil>)"

text \<open>
  Both commands open with the same check on their own dictionary and their own window:
  either the wait notice with \<open>remaining\<close>, or the dictionary with the chat's entry set
  to \<open>current_time\<close>.
\<close>

datatype cooldown = Wait int | Armed "int \<rightharpoonup> real"

definition check_cooldown :: "(int \<rightharpoonup> real) \<Rightarrow> int \<Rightarrow> real \<Rightarrow> real \<Rightarrow> cooldown" where
  "check_cooldown usage chat current_time window =
     (case usage chat of
        None \<Rightarrow> Armed (usage(chat \<mapsto> current_time))
      | Some last_usage \<Rightarrow>
          let time_diff = current_time - last_usage in
          if time_diff < window then Wait (py_int (window - time_diff))
          else Armed (usage(chat \<mapsto> current_time)))"

section \<open>The messaging surface\<close>

text \<open>The result of \<^verbatim>\<open>chat.get_member(user.id)\<close>: an exception, or the member's status.\<close>

datatype member_lookup = Lookup_failed | Member_status string

text \<open>
  What a command does to the outside, in order: replies, sends, deletes, pauses and the
  closing log line. A send carries the message id it returned, \<open>None\<close> when it raised;
  a delete carries whether it succeeded. \<open>Delete_duplicate_message\<close> is the
  \<^verbatim>\<open>delete_message\<close> call of the second loop of \<open>delete_duplicates\<close>, tagged with the
  \<open>unique_id\<close> of the row it was issued for.
\<close>

datatype action =
    Reply_wait_report int
  | Reply_no_repeated
  | Reply_report_header nat "int option"
  | Send_video int string nat int "int option"
  | Sleep real
  | Reply_could_not_send nat "int option"
  | Log_report_completed nat
  | Reply_report_error
  | Reply_wait_delete int
  | Get_member int member_lookup
  | Reply_only_admins
  | Reply_could_not_verify
  | Delete_report_message int int bool
  | Delete_duplicate_message string int int bool
  | Reply_deleted nat nat nat
  | Reply_stats int int int int int string
  | Reply_could_not_retrieve_statistics

text \<open>
  The surface's answers during one \<open>/report\<close>: to the header reply, to the
  \<^verbatim>\<open>send_video\<close> of item \<open>i\<close>, to the error notice of item \<open>i\<close>, and the
  clock reading (\<^verbatim>\<open>datetime.now().isoformat()\<close>) when the artifact of item \<open>i\<close> is
  noted (\<open>0\<close> for the header).
\<close>

record report_env =
  header_reply :: "int option"
  send_video :: "nat \<Rightarrow> int option"
  error_reply :: "nat \<Rightarrow> int option"
  clock_iso :: "nat \<Rightarrow> string"

text \<open>
  The surface's answers during one \<open>/delete_duplicates\<close>: the membership lookup, and
  whether the \<open>n\<close>-th \<^verbatim>\<open>delete_message\<close> call of the run succeeds.
\<close>

record delete_env =
  get_member :: member_lookup
  delete_message :: "nat \<Rightarrow> bool"

section \<open>The duplicate queries\<close>

text \<open>
  \<^verbatim>\<open>SELECT file_unique_id FROM videos GROUP BY file_unique_id HAVING COUNT(*) > 1\<close>:
  the keys that occur more than once.
\<close>

definition repeated_keys :: "video_row list \<Rightarrow> string list" where
  "repeated_keys vs = filter (\<lambda>k. 1 < count_for vs k) (remdups (map file_unique_id vs))"

text \<open>
  The query of \<open>report_command\<close> (lines 172-178):
  \<^verbatim>\<open>SELECT file_unique_id, file_id, COUNT(*) AS total_count FROM videos
  GROUP BY file_unique_id HAVING total_count > 1 ORDER BY total_count DESC\<close>,
  as SQLite computes it. The groups are formed along the index on \<open>file_unique_id\<close>,
  so they arise by ascending key (texts compare bytewise, as strings do here); the bare
  column \<open>file_id\<close> is read from the first row of the group in rowid order; groups of
  size one are dropped; the sort by descending \<open>total_count\<close> keeps groups of equal
  size in the order in which they arose.
\<close>

definition report_rows :: "video_row list \<Rightarrow> (string \<times> string \<times> int) list" where
  "report_rows vs =
     sort_key (\<lambda>row. - snd (snd row))
       (map (\<lambda>k. (k, file_id (hd (filter (\<lambda>r. file_unique_id r = k) vs)), count_for vs k))
          (sort (repeated_keys vs)))"

text \<open>
  The query of \<open>delete_duplicates\<close> (lines 285-295): the rows of every repeated key,
  \<^verbatim>\<open>ORDER BY file_unique_id, message_id\<close>, as \<open>(file_unique_id, message_id, chat_id)\<close>.
  Texts compare bytewise, as strings do here. The two sort columns are the primary key, so
  no two rows tie.
\<close>

definition duplicate_rows :: "video_row list \<Rightarrow> (string \<times> int \<times> int) list" where
  "duplicate_rows vs =
     map (\<lambda>r. (file_unique_id r, message_id r, chat_id r))
       (sort_key video_key (filter (\<lambda>r. file_unique_id r \<in> set (repeated_keys vs)) vs))"

section \<open>report\_command (bot.py, lines 153-226)\<close>

text \<open>
  The loop over \<^verbatim>\<open>enumerate(repeated[:MAX_REPORT_VIDEOS], start=1)\<close>. The accumulator
  is \<open>(videos_sent, messages_to_store)\<close> and the actions so far.
\<close>

fun send_videos ::
  "report_env \<Rightarrow> int \<Rightarrow> nat \<Rightarrow> (string \<times> string \<times> int) list
     \<Rightarrow> nat \<times> (int \<times> int \<times> string \<times> string) list \<times> action list
     \<Rightarrow> nat \<times> (int \<times> int \<times> string \<times> string) list \<times> action list" where
  "send_videos env chat i [] acc = acc"
| "send_videos env chat i ((unique_id, fid, total_count) # rest)
     (videos_sent, messages_to_store, tr) =
     (case send_video env i of
        Some sent_msg \<Rightarrow>
          send_videos env chat (Suc i) rest
            (Suc videos_sent,
             messages_to_store @ [(chat, sent_msg, ''video'', clock_iso env i)],
             tr @ [Send_video chat fid i total_count (Some sent_msg), Sleep RATE_LIMIT_DELAY])
      | None \<Rightarrow>
          (case error_reply env i of
             Some error_msg \<Rightarrow>
               send_videos env chat (Suc i) rest
                 (videos_sent,
                  messages_to_store @ [(chat, error_msg, ''error'', clock_iso env i)],
                  tr @ [Send_video chat fid i total_count None,
                        Reply_could_not_send i (Some error_msg)])
           | None \<Rightarrow>
               send_videos env chat (Suc i) rest
                 (videos_sent, messages_to_store,
                  tr @ [Send_video chat fid i total_count None, Reply_could_not_send i None])))"

text \<open>\<^verbatim>\<open>executemany("INSERT INTO report_messages (...) VALUES (?, ?, ?, ?)", ...)\<close>\<close>

fun insert_report_messages :: "(int \<times> int \<times> string \<times> string) list \<Rightarrow> bot \<Rightarrow> bot" where
  "insert_report_messages [] s = s"
| "insert_report_messages ((chat, msg, kind, stamp) # rest) s =
     insert_report_messages rest
       (s\<lparr>report_messages := report_messages s @
            [\<lparr>rm_id = report_seq s + 1, rm_chat_id = chat, rm_message_id = msg,
              report_type = kind, created_at = stamp\<rparr>],
          report_seq := report_seq s + 1\<rparr>)"

text \<open>
  \<open>repeated\<close> is what \<^verbatim>\<open>cursor.fetchall()\<close> returned for the query above,
  \<open>report_rows\<close> of the table at that moment. Replies
  whose failure changes neither the store nor the rest of the run (the wait notice, the
  "no repeated videos" notice) are taken to succeed; a failing header reply reaches the
  outer handler, which answers with the generic error notice.
\<close>

definition report_command ::
  "bot \<Rightarrow> update \<Rightarrow> real \<Rightarrow> (string \<times> string \<times> int) list \<Rightarrow> report_env
     \<Rightarrow> bot \<times> action list" where
  "report_command s u current_time repeated env =
     (let chat = effective_chat_id u in
      case check_cooldown (last_report_usage s) chat current_time REPORT_COOLDOWN of
        Wait remaining \<Rightarrow> (s, [Reply_wait_report remaining])
      | Armed usage \<Rightarrow>
          let s1 = s\<lparr>last_report_usage := usage\<rparr> in
          if repeated = [] then (s1, [Reply_no_repeated])
          else
            (case header_reply env of
               None \<Rightarrow> (s1, [Reply_report_header (length repeated) None, Reply_report_error])
             | Some report_msg \<Rightarrow>
                 (case send_videos env chat 1 (take MAX_REPORT_VIDEOS repeated)
                         (0, [(chat, report_msg, ''header'', clock_iso env 0)],
                          [Reply_report_header (length repeated) (Some report_msg)]) of
                    (videos_sent, messages_to_store, tr) \<Rightarrow>
                      (insert_report_messages messages_to_store s1,
                       tr @ [Log_report_completed videos_sent]))))"

section \<open>delete\_duplicates (bot.py, lines 229-333)\<close>

text \<open>
  The first loop (lines 267-274), over the report messages of the chat. \<open>n\<close> counts
  the \<^verbatim>\<open>delete_message\<close> calls made so far; the accumulator is \<open>report_deleted\<close>
  and the actions so far.
\<close>

fun delete_reports ::
  "(nat \<Rightarrow> bool) \<Rightarrow> int \<Rightarrow> nat \<Rightarrow> int list \<Rightarrow> nat \<times> action list \<Rightarrow> nat \<times> action list" where
  "delete_reports dm chat n [] acc = acc"
| "delete_reports dm chat n (msg # rest) (report_deleted, tr) =
     (if dm n
      then delete_reports dm chat (Suc n) rest
             (Suc report_deleted, tr @ [Delete_report_message chat msg True])
      else delete_reports dm chat (Suc n) rest
             (report_deleted, tr @ [Delete_report_message chat msg False]))"

text \<open>
  The second loop (lines 298-312), over the rows of the duplicate query, with
  \<open>last_unique\<close> (\<open>None\<close> at the start). The accumulator is
  \<open>(duplicates_deleted, videos_to_delete)\<close> and the actions so far.
\<close>

fun delete_loop ::
  "(nat \<Rightarrow> bool) \<Rightarrow> nat \<Rightarrow> (string \<times> int \<times> int) list \<Rightarrow> string option
     \<Rightarrow> nat \<times> (string \<times> int) list \<times> action list
     \<Rightarrow> nat \<times> (string \<times> int) list \<times> action list" where
  "delete_loop dm n [] last_unique acc = acc"
| "delete_loop dm n ((unique_id, msg, video_chat_id) # rest) last_unique
     (duplicates_deleted, videos_to_delete, tr) =
     (if Some unique_id \<noteq> last_unique
      then delete_loop dm n rest (Some unique_id) (duplicates_deleted, videos_to_delete, tr)
      else if dm n
      then delete_loop dm (Suc n) rest last_unique
             (Suc duplicates_deleted, videos_to_delete @ [(unique_id, msg)],
              tr @ [Delete_duplicate_message unique_id msg video_chat_id True])
      else delete_loop dm (Suc n) rest last_unique
             (duplicates_deleted, videos_to_delete,
              tr @ [Delete_duplicate_message unique_id msg video_chat_id False]))"

text \<open>
  \<^verbatim>\<open>executemany("DELETE FROM videos WHERE file_unique_id = ? AND message_id = ?", ...)\<close>,
  run only when the list is not empty.
\<close>

definition delete_videos :: "(string \<times> int) list \<Rightarrow> video_row list \<Rightarrow> video_row list" where
  "delete_videos videos_to_delete vs =
     (if videos_to_delete = [] then vs
      else filter (\<lambda>r. video_key r \<notin> set videos_to_delete) vs)"

text \<open>
  The report messages are read in table order. \<open>total_deleted\<close> grows together with
  \<open>report_deleted\<close> and \<open>duplicates_deleted\<close>, so it is their sum at the reply.
\<close>

definition delete_duplicates :: "bot \<Rightarrow> update \<Rightarrow> real \<Rightarrow> delete_env \<Rightarrow> bot \<times> action list" where
  "delete_duplicates s u current_time env =
     (let chat = effective_chat_id u in
      case check_cooldown (last_delete_usage s) chat current_time DELETE_COOLDOWN of
        Wait remaining \<Rightarrow> (s, [Reply_wait_delete remaining])
      | Armed usage \<Rightarrow>
          let s1 = s\<lparr>last_delete_usage := usage\<rparr>;
              lookup = Get_member (effective_user_id u) (get_member env) in
          (case get_member env of
             Lookup_failed \<Rightarrow> (s1, [lookup, Reply_could_not_verify])
           | Member_status status \<Rightarrow>
               if status \<notin> set [''administrator'', ''creator'']
               then (s1, [lookup, Reply_only_admins])
               else
                 let ids = map rm_message_id
                             (filter (\<lambda>m. rm_chat_id m = chat) (report_messages s1)) in
                 (case delete_reports (delete_message env) chat 0 ids (0, [lookup]) of
                    (report_deleted, tr1) \<Rightarrow>
                      let s2 = s1\<lparr>report_messages :=
                                   filter (\<lambda>m. rm_chat_id m \<noteq> chat) (report_messages s1)\<rparr> in
                      (case delete_loop (delete_message env) (length ids)
                              (duplicate_rows (videos s2)) None (0, [], tr1) of
                         (duplicates_deleted, videos_to_delete, tr2) \<Rightarrow>
                           (s2\<lparr>videos := delete_videos videos_to_delete (videos s2)\<rparr>,
                            tr2 @ [Reply_deleted (report_deleted + duplicates_deleted)
                                     report_deleted duplicates_deleted])))))"

section \<open>stats\_command (bot.py, lines 336-399)\<close>

text \<open>
  The select list of the fourth statement, \<^verbatim>\<open>SUM(COUNT(*) - 1)\<close>, as a term, and the
  two rules of SQLite it meets: an aggregate may not stand inside the argument of an
  aggregate (\<^verbatim>\<open>misuse of aggregate function COUNT()\<close>, raised when the statement is
  prepared), and a grouped select yields one row per group that passes
  \<^verbatim>\<open>HAVING COUNT(*) > 1\<close>.
\<close>

datatype sqlite_error = OperationalError

datatype sql_expr = Count_star | Literal int | Minus sql_expr sql_expr | Sum sql_expr

fun contains_aggregate :: "sql_expr \<Rightarrow> bool" where
  "contains_aggregate Count_star = True"
| "contains_aggregate (Literal n) = False"
| "contains_aggregate (Minus a b) = (contains_aggregate a \<or> contains_aggregate b)"
| "contains_aggregate (Sum e) = True"

fun misuse_of_aggregate :: "sql_expr \<Rightarrow> bool" where
  "misuse_of_aggregate Count_star = False"
| "misuse_of_aggregate (Literal n) = False"
| "misuse_of_aggregate (Minus a b) = (misuse_of_aggregate a \<or> misuse_of_aggregate b)"
| "misuse_of_aggregate (Sum e) = contains_aggregate e"

fun eval_row :: "sql_expr \<Rightarrow> int" where
  "eval_row (Literal n) = n"
| "eval_row (Minus a b) = eval_row a - eval_row b"
| "eval_row e = 0"

fun eval_group :: "sql_expr \<Rightarrow> video_row list \<Rightarrow> int" where
  "eval_group Count_star g = int (length g)"
| "eval_group (Literal n) g = n"
| "eval_group (Minus a b) g = eval_group a g - eval_group b g"
| "eval_group (Sum e) g = sum_list (map (\<lambda>r. eval_row e) g)"

text \<open>
  \<^verbatim>\<open>SELECT e FROM videos GROUP BY file_unique_id HAVING COUNT(*) > 1\<close>
\<close>

definition select_repeated :: "sql_expr \<Rightarrow> video_row list \<Rightarrow> sqlite_error + int list" where
  "select_repeated e vs =
     (if misuse_of_aggregate e then Inl OperationalError
      else Inr (map (\<lambda>k. eval_group e (filter (\<lambda>r. file_unique_id r = k) vs))
                  (repeated_keys vs)))"

text \<open>
  The handler runs its six statements in order; any exception ends in the reply
  "Could not retrieve statistics". \<^verbatim>\<open>fetchone()\<close> reads the first row of the fourth
  answer, and \<open>total_duplicates\<close> is \<open>0\<close> when there is none.
\<close>

definition stats_command :: "bot \<Rightarrow> update \<Rightarrow> action list" where
  "stats_command s u =
     (let total_videos = int (length (videos s));
          unique_videos = int (length (remdups (map file_unique_id (videos s))));
          duplicate_sets = int (length (repeated_keys (videos s)))
      in case select_repeated (Sum (Minus Count_star (Literal 1))) (videos s) of
           Inl err \<Rightarrow> [Reply_could_not_retrieve_statistics]
         | Inr answer \<Rightarrow>
             let total_duplicates = (case answer of [] \<Rightarrow> 0 | result # rest \<Rightarrow> result);
                 report_count = int (length (filter (\<lambda>m. rm_chat_id m = effective_chat_id u)
                                               (report_messages s)));
                 oldest_date =
                   (case map first_seen (videos s) of
                      [] \<Rightarrow> ''N/A''
                    | d # ds \<Rightarrow> if fold min ds d = [] then ''N/A'' else fold min ds d)
             in [Reply_stats total_videos unique_videos duplicate_sets total_duplicates
                   report_count oldest_date])"

section \<open>Notions the claims are stated with\<close>

text \<open>
  What item \<open>i\<close> of a report adds to the stored artifacts and to the actions: a
  \<open>video\<close> artifact and the pause when its send succeeds; otherwise the error notice,
  and an \<open>error\<close> artifact only when that notice was sent.
\<close>

definition item_messages :: "report_env \<Rightarrow> int \<Rightarrow> nat \<Rightarrow> (int \<times> int \<times> string \<times> string) list" where
  "item_messages env chat i =
     (case send_video env i of
        Some sent_msg \<Rightarrow> [(chat, sent_msg, ''video'', clock_iso env i)]
      | None \<Rightarrow>
          (case error_reply env i of
             Some error_msg \<Rightarrow> [(chat, error_msg, ''error'', clock_iso env i)]
           | None \<Rightarrow> []))"

definition item_actions :: "report_env \<Rightarrow> int \<Rightarrow> nat \<times> string \<times> string \<times> int \<Rightarrow> action list" where
  "item_actions env chat item =
     (case item of (i, unique_id, fid, total_count) \<Rightarrow>
        (case send_video env i of
           Some sent_msg \<Rightarrow>
             [Send_video chat fid i total_count (Some sent_msg), Sleep RATE_LIMIT_DELAY]
         | None \<Rightarrow>
             [Send_video chat fid i total_count None, Reply_could_not_send i (error_reply env i)]))"

text \<open>The four columns a report artifact is inserted with.\<close>

definition artifact :: "report_row \<Rightarrow> int \<times> int \<times> string \<times> string" where
  "artifact m = (rm_chat_id m, rm_message_id m, report_type m, created_at m)"

text \<open>
  A trace in which the pause stands exactly behind the successful media sends: every
  successful \<open>Send_video\<close> is followed at once by \<open>Sleep RATE_LIMIT_DELAY\<close>, and no
  \<open>Sleep\<close> stands anywhere else.
\<close>

fun is_sent :: "action \<Rightarrow> bool" where
  "is_sent (Send_video chat fid i n (Some m)) = True"
| "is_sent a = False"

fun is_sleep :: "action \<Rightarrow> bool" where
  "is_sleep (Sleep d) = True"
| "is_sleep a = False"

fun delay_follows_sends :: "action list \<Rightarrow> bool" where
  "delay_follows_sends [] = True"
| "delay_follows_sends (a # rest) =
     (if is_sent a
      then (case rest of
              [] \<Rightarrow> False
            | b # rest' \<Rightarrow> b = Sleep RATE_LIMIT_DELAY \<and> delay_follows_sends rest')
      else \<not> is_sleep a \<and> delay_follows_sends rest)"

text \<open>The actions behind the last media send of a trace.\<close>

fun is_send :: "action \<Rightarrow> bool" where
  "is_send (Send_video chat fid i n m) = True"
| "is_send a = False"

definition after_last_send :: "action list \<Rightarrow> action list" where
  "after_last_send tr = rev (takeWhile (\<lambda>a. \<not> is_send a) (rev tr))"

text \<open>
  Rows in the order the report is specified with: by descending \<open>total_count\<close>, and
  by ascending key among rows of equal \<open>total_count\<close>. The order is strict, so a list
  in this order repeats no row.
\<close>

definition ties_by_key :: "(string \<times> string \<times> int) list \<Rightarrow> bool" where
  "ties_by_key repeated =
     sorted_wrt (\<lambda>a b. snd (snd b) < snd (snd a) \<or> snd (snd b) = snd (snd a) \<and> fst a < fst b)
       repeated"

text \<open>
  The occurrence a duplicate set keeps: the row with the least \<open>message_id\<close> among the
  rows of its \<open>file_unique_id\<close>.
\<close>

definition kept_occurrence :: "video_row list \<Rightarrow> video_row \<Rightarrow> bool" where
  "kept_occurrence vs r \<longleftrightarrow>
     r \<in> set vs \<and>
     (\<forall>r' \<in> set vs. file_unique_id r' = file_unique_id r \<longrightarrow> message_id r \<le> message_id r')"

text \<open>
  The delete attempts of the second loop of \<open>delete_duplicates\<close>, read off a trace:
  \<open>(unique_id, message_id, chat_id, succeeded)\<close> for each of them, in order.
\<close>

fun duplicate_attempt :: "action \<Rightarrow> (string \<times> int \<times> int \<times> bool) list" where
  "duplicate_attempt (Delete_duplicate_message unique_id msg chat ok) =
     [(unique_id, msg, chat, ok)]"
| "duplicate_attempt a = []"

definition duplicate_attempts :: "action list \<Rightarrow> (string \<times> int \<times> int \<times> bool) list" where
  "duplicate_attempts tr = concat (map duplicate_attempt tr)"

text \<open>
  The same attempts computed from the rows alone: the loop without its accumulators.
\<close>

fun attempts ::
  "(nat \<Rightarrow> bool) \<Rightarrow> nat \<Rightarrow> (string \<times> int \<times> int) list \<Rightarrow> string option
     \<Rightarrow> (string \<times> int \<times> int \<times> bool) list" where
  "attempts dm n [] last_unique = []"
| "attempts dm n ((unique_id, msg, video_chat_id) # rest) last_unique =
     (if Some unique_id \<noteq> last_unique then attempts dm n rest (Some unique_id)
      else (unique_id, msg, video_chat_id, dm n) # attempts dm (Suc n) rest last_unique)"

section \<open>Example inputs\<close>

text \<open>
  Two deliveries of the same video \<open>A\<close> in chat \<open>1\<close>, as messages \<open>10\<close> and \<open>20\<close>.
\<close>

definition update_A10 :: update where
  "update_A10 = \<lparr>message_video = Some (''file-A'', ''A''), message_message_id = 10,
                  effective_chat_id = 1, effective_user_id = 7\<rparr>"

definition update_A20 :: update where
  "update_A20 = \<lparr>message_video = Some (''file-A'', ''A''), message_message_id = 20,
                  effective_chat_id = 1, effective_user_id = 7\<rparr>"

text \<open>
  Two deliveries of a second video \<open>B\<close> in chat \<open>1\<close>, as messages \<open>30\<close> and
  \<open>40\<close>, and the state after the four deliveries \<open>A, A, B, B\<close>.
\<close>

definition update_B30 :: update where
  "update_B30 = \<lparr>message_video = Some (''file-B'', ''B''), message_message_id = 30,
                  effective_chat_id = 1, effective_user_id = 7\<rparr>"

definition update_B40 :: update where
  "update_B40 = \<lparr>message_video = Some (''file-B'', ''B''), message_message_id = 40,
                  effective_chat_id = 1, effective_user_id = 7\<rparr>"

definition two_pairs :: bot where
  "two_pairs = video_handler_all initial_bot
     [(update_A10, ''t1''), (update_A20, ''t2''), (update_B30, ''t3''), (update_B40, ''t4'')]"

text \<open>
  A command sent in chat \<open>5\<close> by user \<open>7\<close>, and a state in which both commands
  were last armed for that chat at second \<open>1000\<close>.
\<close>

definition command_in_chat_5 :: update where
  "command_in_chat_5 = \<lparr>message_video = None, message_message_id = 50,
                         effective_chat_id = 5, effective_user_id = 7\<rparr>"

definition armed_at_1000 :: bot where
  "armed_at_1000 = initial_bot\<lparr>last_report_usage := [5 \<mapsto> 1000],
                                last_delete_usage := [5 \<mapsto> 1000]\<rparr>"

text \<open>
  A surface on which every send succeeds (the header is message \<open>100\<close>, the video of
  item \<open>i\<close> is message \<open>100 + i\<close>, an error notice would be \<open>200 + i\<close>), one on
  which exactly the send of item \<open>2\<close> fails, and the answers to a delete command of an
  administrator and of a plain member, every delete succeeding.
\<close>

definition all_sent :: report_env where
  "all_sent = \<lparr>header_reply = Some 100, send_video = (\<lambda>i. Some (100 + int i)),
                error_reply = (\<lambda>i. Some (200 + int i)), clock_iso = (\<lambda>i. ''t'')\<rparr>"

definition second_fails :: report_env where
  "second_fails = \<lparr>header_reply = Some 100,
                    send_video = (\<lambda>i. if i = 2 then None else Some (100 + int i)),
                    error_reply = (\<lambda>i. Some (200 + int i)), clock_iso = (\<lambda>i. ''t'')\<rparr>"

definition admin_all_deleted :: delete_env where
  "admin_all_deleted = \<lparr>get_member = Member_status ''administrator'',
                         delete_message = (\<lambda>n. True)\<rparr>"

definition plain_member :: delete_env where
  "plain_member = \<lparr>get_member = Member_status ''member'', delete_message = (\<lambda>n. True)\<rparr>"

text \<open>
  The state after \<open>A, A, B, B\<close> with two report artifacts, one of chat \<open>5\<close> and one
  of chat \<open>6\<close>; its first row, the kept occurrence of \<open>A\<close>; and a creator's delete
  command on a surface where exactly the second \<^verbatim>\<open>delete_message\<close> call fails.
\<close>

definition with_reports :: bot where
  "with_reports = two_pairs
     \<lparr>report_messages :=
        [\<lparr>rm_id = 1, rm_chat_id = 5, rm_message_id = 100, report_type = ''header'',
          created_at = ''t5''\<rparr>,
         \<lparr>rm_id = 2, rm_chat_id = 6, rm_message_id = 70, report_type = ''header'',
          created_at = ''t6''\<rparr>],
      report_seq := 2\<rparr>"

definition row_A10 :: video_row where
  "row_A10 = \<lparr>file_unique_id = ''A'', file_id = ''file-A'', count = 2, first_seen = ''t1'',
               chat_id = 1, message_id = 10\<rparr>"

definition row_A20 :: video_row where
  "row_A20 = \<lparr>file_unique_id = ''A'', file_id = ''file-A'', count = 2, first_seen = ''t2'',
               chat_id = 1, message_id = 20\<rparr>"

definition row_B30 :: video_row where
  "row_B30 = \<lparr>file_unique_id = ''B'', file_id = ''file-B'', count = 2, first_seen = ''t3'',
               chat_id = 1, message_id = 30\<rparr>"

definition row_B40 :: video_row where
  "row_B40 = \<lparr>file_unique_id = ''B'', file_id = ''file-B'', count = 2, first_seen = ''t4'',
               chat_id = 1, message_id = 40\<rparr>"

definition creator_second_fails :: delete_env where
  "creator_second_fails = \<lparr>get_member = Member_status ''creator'',
                            delete_message = (\<lambda>n. n \<noteq> 1)\<rparr>"

text \<open>Three duplicate sets as the report query may return them.\<close>

definition three_sets :: "(string \<times> string \<times> int) list" where
  "three_sets = [(''A'', ''file-A'', 3), (''B'', ''file-B'', 2), (''C'', ''file-C'', 2)]"

section \<open>Facts about the store operations\<close>

lemma count_for_update_count [simp]:
  "count_for (update_count n k vs) k' = count_for vs k'"
  by (induction vs) (auto simp: count_for_def update_count_def)

lemma video_key_update_count [simp]:
  "map video_key (update_count n k vs) = map video_key vs"
  by (induction vs) (auto simp: update_count_def video_key_def)

lemma update_count_twice [simp]:
  "update_count n k (update_count n k vs) = update_count n k vs"
  by (induction vs) (auto simp: update_count_def)

lemma key_in_insert_or_ignore:
  "video_key r \<in> set (map video_key (insert_or_ignore r vs))"
  by (simp add: insert_or_ignore_def)

lemma insert_or_ignore_present:
  "video_key r \<in> set (map video_key vs) \<Longrightarrow> insert_or_ignore r vs = vs"
  by (simp add: insert_or_ignore_def)

lemma count_for_insert_other:
  "file_unique_id r \<noteq> k \<Longrightarrow> count_for (insert_or_ignore r vs) k = count_for vs k"
  by (simp add: insert_or_ignore_def count_for_def)

lemma count_consistent_update_count:
  assumes "\<And>r. r \<in> set vs \<Longrightarrow> file_unique_id r \<noteq> k
             \<Longrightarrow> count r = count_for vs (file_unique_id r)"
  shows "count_consistent (update_count (count_for vs k) k vs)"
  unfolding count_consistent_def
proof
  fix r assume "r \<in> set (update_count (count_for vs k) k vs)"
  then obtain r0 where r0: "r0 \<in> set vs"
    and r: "r = (if file_unique_id r0 = k then r0\<lparr>count := count_for vs k\<rparr> else r0)"
    by (auto simp: update_count_def)
  show "count r = count_for (update_count (count_for vs k) k vs) (file_unique_id r)"
  proof (cases "file_unique_id r0 = k")
    case True
    with r show ?thesis by simp
  next
    case False
    with r r0 assms show ?thesis by simp
  qed
qed

lemma video_handler_preserves_count_consistent:
  assumes "count_consistent (videos s)"
  shows "count_consistent (videos (video_handler s u now))"
proof (cases "message_video u")
  case None
  with assms show ?thesis by (simp add: video_handler_def)
next
  case (Some p)
  obtain fid k where p: "p = (fid, k)" by (cases p)
  define row where "row = \<lparr>file_unique_id = k, file_id = fid, count = 0, first_seen = now,
    chat_id = effective_chat_id u, message_id = message_message_id u\<rparr>"
  define vs1 where "vs1 = insert_or_ignore row (videos s)"
  have other: "count r = count_for vs1 (file_unique_id r)"
    if "r \<in> set vs1" "file_unique_id r \<noteq> k" for r
  proof -
    have "r \<in> set (videos s)"
      using that by (auto simp: vs1_def insert_or_ignore_def row_def split: if_splits)
    with assms have "count r = count_for (videos s) (file_unique_id r)"
      by (simp add: count_consistent_def)
    also have "\<dots> = count_for vs1 (file_unique_id r)"
      using that(2) by (simp add: vs1_def count_for_insert_other row_def)
    finally show ?thesis .
  qed
  have "videos (video_handler s u now) = update_count (count_for vs1 k) k vs1"
    using Some p by (simp add: video_handler_def vs1_def row_def Let_def)
  with count_consistent_update_count [of vs1 k, OF other] show ?thesis by simp
qed

lemma video_handler_all_preserves_count_consistent:
  "count_consistent (videos s) \<Longrightarrow> count_consistent (videos (video_handler_all s us))"
  by (induction s us rule: video_handler_all.induct)
     (simp_all add: video_handler_preserves_count_consistent)

section \<open>Claims about the occurrence recorder\<close>

text \<open>
  C2. Starting from the freshly initialised database, after any sequence of
  \<open>video_handler\<close> calls (with or without a video, in any chats, retries included) every
  stored row's \<open>count\<close> column equals the number of stored rows that share its
  \<open>file_unique_id\<close>, whatever their \<open>chat_id\<close>.
\<close>

theorem C2_count_equals_group_size:
  "count_consistent (videos (video_handler_all initial_bot us))"
  by (rule video_handler_all_preserves_count_consistent)
     (simp add: initial_bot_def count_consistent_def)


theorem C2_count_witness:
  "count_consistent
     (videos (video_handler_all initial_bot [(update_A10, ''t1''), (update_A20, ''t2'')]))
   \<and> map count
       (videos (video_handler_all initial_bot [(update_A10, ''t1''), (update_A20, ''t2'')]))
     = [2, 2]"
  using C2_count_equals_group_size [of "[(update_A10, ''t1''), (update_A20, ''t2'')]"]
  by (simp add: video_handler_def initial_bot_def update_A10_def update_A20_def
        insert_or_ignore_def update_count_def count_for_def video_key_def)

text \<open>
  C3. Delivering a video a second time with the same \<open>file_unique_id\<close> and the same
  \<open>message_id\<close> changes nothing: the whole state after the second call is the state
  after the first, so the row that was there keeps every column (\<open>first_seen\<close>
  included) and every \<open>count\<close> keeps its value.
\<close>

theorem C3_record_twice_is_idempotent:
  assumes "message_video u1 = Some (f1, k)"
      and "message_video u2 = Some (f2, k)"
      and "message_message_id u2 = message_message_id u1"
  shows "video_handler (video_handler s u1 now1) u2 now2 = video_handler s u1 now1"
proof -
  define row1 where "row1 = \<lparr>file_unique_id = k, file_id = f1, count = 0, first_seen = now1,
    chat_id = effective_chat_id u1, message_id = message_message_id u1\<rparr>"
  define row2 where "row2 = \<lparr>file_unique_id = k, file_id = f2, count = 0, first_seen = now2,
    chat_id = effective_chat_id u2, message_id = message_message_id u2\<rparr>"
  define vs1 where "vs1 = insert_or_ignore row1 (videos s)"
  define vs2 where "vs2 = update_count (count_for vs1 k) k vs1"
  have first: "video_handler s u1 now1 = s\<lparr>videos := vs2\<rparr>"
    using assms(1) by (simp add: video_handler_def vs2_def vs1_def row1_def Let_def)
  have "video_key row2 = video_key row1"
    using assms(3) by (simp add: video_key_def row1_def row2_def)
  then have "video_key row2 \<in> set (map video_key vs2)"
    using key_in_insert_or_ignore [of row1 "videos s"] by (simp add: vs2_def vs1_def)
  then have ignored: "insert_or_ignore row2 vs2 = vs2"
    by (rule insert_or_ignore_present)
  have "video_handler (s\<lparr>videos := vs2\<rparr>) u2 now2
          = s\<lparr>videos := update_count (count_for vs2 k) k vs2\<rparr>"
    using assms(2) ignored by (simp add: video_handler_def row2_def Let_def)
  also have "update_count (count_for vs2 k) k vs2 = vs2"
    by (simp add: vs2_def)
  finally show ?thesis
    by (simp add: first)
qed

theorem C3_record_twice_witness:
  "video_handler (video_handler initial_bot update_A10 ''t1'') update_A10 ''t2''
     = video_handler initial_bot update_A10 ''t1''
   \<and> map first_seen (videos (video_handler initial_bot update_A10 ''t1'')) = [''t1'']"
proof -
  have "message_video update_A10 = Some (''file-A'', ''A'')"
    by (simp add: update_A10_def)
  from C3_record_twice_is_idempotent [OF this this refl]
  show ?thesis
    by (simp add: video_handler_def initial_bot_def update_A10_def insert_or_ignore_def
          update_count_def count_for_def video_key_def)
qed


section \<open>Facts about the command gate\<close>

lemma check_cooldown_denied:
  "usage chat = Some t0 \<Longrightarrow> now - t0 < W
     \<Longrightarrow> check_cooldown usage chat now W = Wait \<lfloor>W - (now - t0)\<rfloor>"
  by (simp add: check_cooldown_def py_int_def Let_def)

lemma check_cooldown_allowed:
  "usage chat = Some t0 \<Longrightarrow> \<not> now - t0 < W
     \<Longrightarrow> check_cooldown usage chat now W = Armed (usage(chat \<mapsto> now))"
  by (simp add: check_cooldown_def Let_def)

lemma check_cooldown_first:
  "usage chat = None \<Longrightarrow> check_cooldown usage chat now W = Armed (usage(chat \<mapsto> now))"
  by (simp add: check_cooldown_def)

lemma check_cooldown_Armed:
  "check_cooldown usage chat now W = Armed usage' \<Longrightarrow> usage' = usage(chat \<mapsto> now)"
  by (auto simp: check_cooldown_def Let_def split: option.splits if_splits)

lemma last_report_usage_insert_report_messages [simp]:
  "last_report_usage (insert_report_messages ms s) = last_report_usage s"
  by (induction ms s rule: insert_report_messages.induct) simp_all

lemma report_command_wait:
  "check_cooldown (last_report_usage s) (effective_chat_id u) t REPORT_COOLDOWN = Wait r
     \<Longrightarrow> report_command s u t repeated env = (s, [Reply_wait_report r])"
  by (simp add: report_command_def)

lemma report_command_armed:
  assumes "check_cooldown (last_report_usage s) (effective_chat_id u) t REPORT_COOLDOWN
             = Armed usage"
  shows "last_report_usage (fst (report_command s u t repeated env)) = usage"
    and "snd (report_command s u t repeated env) \<noteq> [Reply_wait_report r]"
  using assms
  by (auto simp: report_command_def Let_def split: option.splits prod.splits)

lemma delete_duplicates_wait:
  "check_cooldown (last_delete_usage s) (effective_chat_id u) t DELETE_COOLDOWN = Wait r
     \<Longrightarrow> delete_duplicates s u t env = (s, [Reply_wait_delete r])"
  by (simp add: delete_duplicates_def)

lemma delete_duplicates_armed:
  assumes "check_cooldown (last_delete_usage s) (effective_chat_id u) t DELETE_COOLDOWN
             = Armed usage"
  shows "last_delete_usage (fst (delete_duplicates s u t env)) = usage"
    and "snd (delete_duplicates s u t env) \<noteq> [Reply_wait_delete r]"
  using assms
  by (auto simp: delete_duplicates_def Let_def split: option.splits prod.splits member_lookup.splits)

section \<open>Claims about the command gate\<close>

text \<open>
  C6, as the code has it. Let a chat's entry for a command be \<open>t0\<close> and let the command
  be invoked again at \<open>t0 + eps\<close> with \<open>eps > 0\<close>. For \<open>/report\<close> (window
  \<open>REPORT_COOLDOWN\<close>) and for \<open>/delete_duplicates\<close> (window \<open>DELETE_COOLDOWN\<close>) alike:
  if \<open>eps\<close> is below the window, the command only answers with the wait notice, whose
  number of seconds is the window minus \<open>eps\<close> rounded down (Python's \<^verbatim>\<open>int\<close>), and
  the whole state, the entry included, stays as it was; if \<open>eps\<close> is the window or more,
  the command is not answered with the wait notice and the entry becomes \<open>t0 + eps\<close>.
\<close>

theorem C6_cooldown_window:
  assumes "0 < eps"
  shows "(last_report_usage s (effective_chat_id u) = Some t0 \<longrightarrow>
            (eps < REPORT_COOLDOWN \<longrightarrow>
               report_command s u (t0 + eps) repeated renv
                 = (s, [Reply_wait_report \<lfloor>REPORT_COOLDOWN - eps\<rfloor>])) \<and>
            (REPORT_COOLDOWN \<le> eps \<longrightarrow>
               last_report_usage (fst (report_command s u (t0 + eps) repeated renv))
                   (effective_chat_id u) = Some (t0 + eps) \<and>
               (\<forall>n. snd (report_command s u (t0 + eps) repeated renv) \<noteq> [Reply_wait_report n])))
       \<and> (last_delete_usage s (effective_chat_id u) = Some t0 \<longrightarrow>
            (eps < DELETE_COOLDOWN \<longrightarrow>
               delete_duplicates s u (t0 + eps) denv
                 = (s, [Reply_wait_delete \<lfloor>DELETE_COOLDOWN - eps\<rfloor>])) \<and>
            (DELETE_COOLDOWN \<le> eps \<longrightarrow>
               last_delete_usage (fst (delete_duplicates s u (t0 + eps) denv))
                   (effective_chat_id u) = Some (t0 + eps) \<and>
               (\<forall>n. snd (delete_duplicates s u (t0 + eps) denv) \<noteq> [Reply_wait_delete n])))"
proof (intro conjI impI allI)
  assume a: "last_report_usage s (effective_chat_id u) = Some t0" and b: "eps < REPORT_COOLDOWN"
  show "report_command s u (t0 + eps) repeated renv
          = (s, [Reply_wait_report \<lfloor>REPORT_COOLDOWN - eps\<rfloor>])"
    using check_cooldown_denied [of "last_report_usage s" "effective_chat_id u" t0 "t0 + eps" REPORT_COOLDOWN] a b
    by (simp add: report_command_wait)
next
  assume a: "last_report_usage s (effective_chat_id u) = Some t0" and b: "REPORT_COOLDOWN \<le> eps"
  have c: "check_cooldown (last_report_usage s) (effective_chat_id u) (t0 + eps) REPORT_COOLDOWN
             = Armed ((last_report_usage s)(effective_chat_id u \<mapsto> t0 + eps))"
    using check_cooldown_allowed [of "last_report_usage s" "effective_chat_id u" t0 "t0 + eps" REPORT_COOLDOWN] a b by simp
  show "last_report_usage (fst (report_command s u (t0 + eps) repeated renv))
          (effective_chat_id u) = Some (t0 + eps)"
    by (simp add: report_command_armed(1) [OF c])
  show "snd (report_command s u (t0 + eps) repeated renv) \<noteq> [Reply_wait_report n]" for n
    by (rule report_command_armed(2) [OF c])
next
  assume a: "last_delete_usage s (effective_chat_id u) = Some t0" and b: "eps < DELETE_COOLDOWN"
  show "delete_duplicates s u (t0 + eps) denv
          = (s, [Reply_wait_delete \<lfloor>DELETE_COOLDOWN - eps\<rfloor>])"
    using check_cooldown_denied [of "last_delete_usage s" "effective_chat_id u" t0 "t0 + eps" DELETE_COOLDOWN] a b
    by (simp add: delete_duplicates_wait)
next
  assume a: "last_delete_usage s (effective_chat_id u) = Some t0" and b: "DELETE_COOLDOWN \<le> eps"
  have c: "check_cooldown (last_delete_usage s) (effective_chat_id u) (t0 + eps) DELETE_COOLDOWN
             = Armed ((last_delete_usage s)(effective_chat_id u \<mapsto> t0 + eps))"
    using check_cooldown_allowed [of "last_delete_usage s" "effective_chat_id u" t0 "t0 + eps" DELETE_COOLDOWN] a b by simp
  show "last_delete_usage (fst (delete_duplicates s u (t0 + eps) denv))
          (effective_chat_id u) = Some (t0 + eps)"
    by (simp add: delete_duplicates_armed(1) [OF c])
  show "snd (delete_duplicates s u (t0 + eps) denv) \<noteq> [Reply_wait_delete n]" for n
    by (rule delete_duplicates_armed(2) [OF c])
qed

theorem C6_cooldown_witness:
  "report_command armed_at_1000 command_in_chat_5 (1000 + 1 / 2) [] all_sent
     = (armed_at_1000, [Reply_wait_report 29])
   \<and> delete_duplicates armed_at_1000 command_in_chat_5 (1000 + 1 / 2) admin_all_deleted
     = (armed_at_1000, [Reply_wait_delete 59])
   \<and> last_report_usage
       (fst (report_command armed_at_1000 command_in_chat_5 (1000 + 30) [] all_sent)) 5
     = Some 1030
   \<and> last_delete_usage
       (fst (delete_duplicates armed_at_1000 command_in_chat_5 (1000 + 60) admin_all_deleted)) 5
     = Some 1060"
proof -
  have u: "last_report_usage armed_at_1000 (effective_chat_id command_in_chat_5) = Some 1000"
    "last_delete_usage armed_at_1000 (effective_chat_id command_in_chat_5) = Some 1000"
    "effective_chat_id command_in_chat_5 = 5"
    by (simp_all add: armed_at_1000_def command_in_chat_5_def initial_bot_def)
  have f: "\<lfloor>REPORT_COOLDOWN - 1 / 2\<rfloor> = 29" "\<lfloor>DELETE_COOLDOWN - 1 / 2\<rfloor> = 59"
    by (simp_all add: REPORT_COOLDOWN_def DELETE_COOLDOWN_def)
  have h: "(0::real) < 1 / 2" "(0::real) < 30" "(0::real) < 60" by simp_all
  from C6_cooldown_window [OF h(1), of armed_at_1000 command_in_chat_5 1000 "[]" all_sent
      admin_all_deleted]
    C6_cooldown_window [OF h(2), of armed_at_1000 command_in_chat_5 1000 "[]" all_sent
      admin_all_deleted]
    C6_cooldown_window [OF h(3), of armed_at_1000 command_in_chat_5 1000 "[]" all_sent
      admin_all_deleted]
  show ?thesis
    using u f by (simp add: REPORT_COOLDOWN_def DELETE_COOLDOWN_def)
qed

text \<open>
  C6 as stated asks for the ceiling of the remaining time. Half a second after arming,
  \<open>/report\<close> announces \<open>29\<close> seconds, while the ceiling of the remaining \<open>29.5\<close>
  seconds is \<open>30\<close>.
\<close>

theorem C6_ceiling_counterexample:
  "snd (report_command armed_at_1000 command_in_chat_5 (1000 + 1 / 2) [] all_sent)
     = [Reply_wait_report 29]
   \<and> \<lceil>REPORT_COOLDOWN - ((1000 + 1 / 2) - 1000)\<rceil> = (30::int)"
proof -
  have "\<lfloor>(59::real) / 2\<rfloor> = 29" by linarith
  moreover have "\<lceil>(59::real) / 2\<rceil> = 30" by linarith
  ultimately show ?thesis
    by (simp add: report_command_def check_cooldown_def py_int_def Let_def armed_at_1000_def
          command_in_chat_5_def initial_bot_def REPORT_COOLDOWN_def)
qed

text \<open>
  C10. When a \<open>/delete_duplicates\<close> invocation at time \<open>t\<close> passes the cooldown check
  and the requester is not shown to be an administrator or creator (the lookup fails, or
  the status is another one), the invocation changes nothing but the chat's cooldown
  entry, which becomes \<open>t\<close>; it issues no delete and answers with the denial. Any
  invocation for the same chat at a time \<open>t'\<close> with \<open>t' - t\<close> below the window, whoever
  sends it, is then answered with the wait notice alone.
\<close>

theorem C10_denied_invocation_arms_cooldown:
  assumes passes: "check_cooldown (last_delete_usage s) (effective_chat_id u) t DELETE_COOLDOWN
                     = Armed usage"
      and denied: "\<not> (\<exists>status. get_member env = Member_status status
                        \<and> status \<in> {''administrator'', ''creator''})"
      and same_chat: "effective_chat_id u' = effective_chat_id u"
      and within: "t' - t < DELETE_COOLDOWN"
  shows "delete_duplicates s u t env
           = (s\<lparr>last_delete_usage := (last_delete_usage s)(effective_chat_id u \<mapsto> t)\<rparr>,
              [Get_member (effective_user_id u) (get_member env),
               if get_member env = Lookup_failed then Reply_could_not_verify
               else Reply_only_admins])
       \<and> delete_duplicates (fst (delete_duplicates s u t env)) u' t' env'
           = (fst (delete_duplicates s u t env),
              [Reply_wait_delete (py_int (DELETE_COOLDOWN - (t' - t)))])"
proof -
  let ?s1 = "s\<lparr>last_delete_usage := (last_delete_usage s)(effective_chat_id u \<mapsto> t)\<rparr>"
  have usage: "usage = (last_delete_usage s)(effective_chat_id u \<mapsto> t)"
    using passes by (rule check_cooldown_Armed)
  have first: "delete_duplicates s u t env
           = (?s1, [Get_member (effective_user_id u) (get_member env),
               if get_member env = Lookup_failed then Reply_could_not_verify
               else Reply_only_admins])"
    using passes denied usage
    by (cases "get_member env") (auto simp: delete_duplicates_def Let_def)
  have "check_cooldown (last_delete_usage ?s1) (effective_chat_id u') t' DELETE_COOLDOWN
          = Wait (py_int (DELETE_COOLDOWN - (t' - t)))"
    using same_chat within by (simp add: check_cooldown_def Let_def)
  then have "delete_duplicates ?s1 u' t' env'
          = (?s1, [Reply_wait_delete (py_int (DELETE_COOLDOWN - (t' - t)))])"
    by (rule delete_duplicates_wait)
  with first show ?thesis by simp
qed

theorem C10_denied_invocation_witness:
  "delete_duplicates initial_bot command_in_chat_5 1000 plain_member
     = (initial_bot\<lparr>last_delete_usage := [5 \<mapsto> 1000]\<rparr>,
        [Get_member 7 (Member_status ''member''), Reply_only_admins])
   \<and> delete_duplicates (fst (delete_duplicates initial_bot command_in_chat_5 1000 plain_member))
       command_in_chat_5 1010 admin_all_deleted
     = (fst (delete_duplicates initial_bot command_in_chat_5 1000 plain_member),
        [Reply_wait_delete 50])"
proof -
  have a: "check_cooldown (last_delete_usage initial_bot) (effective_chat_id command_in_chat_5)
             1000 DELETE_COOLDOWN = Armed [5 \<mapsto> 1000]"
    by (simp add: check_cooldown_def initial_bot_def command_in_chat_5_def)
  have b: "\<not> (\<exists>status. get_member plain_member = Member_status status
                 \<and> status \<in> {''administrator'', ''creator''})"
    by (simp add: plain_member_def)
  have c: "(1010::real) - 1000 < DELETE_COOLDOWN"
    by (simp add: DELETE_COOLDOWN_def)
  note run = C10_denied_invocation_arms_cooldown [OF a b refl c, of admin_all_deleted]
  from run [THEN conjunct1] run [THEN conjunct2]
  show ?thesis
    by (simp add: py_int_def DELETE_COOLDOWN_def initial_bot_def command_in_chat_5_def
          plain_member_def)
qed

section \<open>Claims about the statistics\<close>

text \<open>
  C7, what the code does. The statement that should compute the total of excess
  duplicates is \<^verbatim>\<open>SELECT SUM(COUNT(*) - 1) ... GROUP BY file_unique_id\<close>, an aggregate
  of an aggregate. SQLite refuses it, so on every state \<open>/stats\<close> ends in its exception
  handler and answers "Could not retrieve statistics": no total is ever returned.
\<close>

theorem C7_stats_statement_is_refused:
  "stats_command s u = [Reply_could_not_retrieve_statistics]"
  by (simp add: stats_command_def select_repeated_def)


section \<open>Facts about the report workflow\<close>

lemma send_videos_eq:
  "send_videos env chat i items (n, ms, tr) =
     (n + length (filter (\<lambda>j. send_video env j \<noteq> None) [i..<i + length items]),
      ms @ concat (map (item_messages env chat) [i..<i + length items]),
      tr @ concat (map (item_actions env chat) (zip [i..<i + length items] items)))"
proof (induction items arbitrary: i n ms tr)
  case Nil
  then show ?case by simp
next
  case (Cons item items)
  obtain unique_id fid total_count where item: "item = (unique_id, fid, total_count)"
    by (cases item)
  have upt: "[i..<Suc (i + length items)] = i # [Suc i..<Suc (i + length items)]"
    by (rule upt_conv_Cons) simp
  show ?case
    unfolding item
    by (cases "send_video env i"; cases "error_reply env i")
       (simp_all add: Cons.IH item_messages_def item_actions_def upt del: upt_Suc)
qed

lemma artifact_insert_report_messages:
  "map artifact (report_messages (insert_report_messages ms s))
     = map artifact (report_messages s) @ ms"
  by (induction ms s rule: insert_report_messages.induct) (simp_all add: artifact_def)

lemma report_command_run:
  assumes "check_cooldown (last_report_usage s) (effective_chat_id u) t REPORT_COOLDOWN
             = Armed usage"
      and "repeated \<noteq> []"
      and "header_reply env = Some report_msg"
  shows "report_command s u t repeated env =
     (insert_report_messages
        ((effective_chat_id u, report_msg, ''header'', clock_iso env 0)
         # concat (map (item_messages env (effective_chat_id u))
                    [1..<Suc (min MAX_REPORT_VIDEOS (length repeated))]))
        (s\<lparr>last_report_usage := usage\<rparr>),
      Reply_report_header (length repeated) (Some report_msg)
      # concat (map (item_actions env (effective_chat_id u))
                 (zip [1..<Suc (min MAX_REPORT_VIDEOS (length repeated))]
                      (take MAX_REPORT_VIDEOS repeated)))
      @ [Log_report_completed
           (length (filter (\<lambda>i. send_video env i \<noteq> None)
                      [1..<Suc (min MAX_REPORT_VIDEOS (length repeated))]))])"
  using assms
  by (simp add: report_command_def Let_def send_videos_eq min.commute)

lemma delay_follows_sends_append:
  "delay_follows_sends xs \<Longrightarrow> delay_follows_sends ys \<Longrightarrow> delay_follows_sends (xs @ ys)"
  by (induction xs rule: delay_follows_sends.induct) (auto split: list.splits if_splits)

lemma delay_follows_sends_concat:
  "(\<And>xs. xs \<in> set xss \<Longrightarrow> delay_follows_sends xs) \<Longrightarrow> delay_follows_sends (concat xss)"
  by (induction xss) (simp_all add: delay_follows_sends_append)

lemma delay_follows_sends_item_actions:
  "delay_follows_sends (item_actions env chat item)"
  by (cases item; cases "send_video env (fst item)") (simp_all add: item_actions_def)

lemma item_actions_no_header:
  "Reply_report_header n h \<notin> set (item_actions env chat item)"
  by (cases item; cases "send_video env (fst item)") (simp_all add: item_actions_def)

lemma filter_is_send_item_actions:
  "filter is_send (item_actions env chat item)
     = [case item of (i, unique_id, fid, total_count) \<Rightarrow>
          Send_video chat fid i total_count (send_video env i)]"
  by (cases item; cases "send_video env (fst item)") (simp_all add: item_actions_def)

lemma concat_map_singleton: "concat (map (\<lambda>x. [f x]) xs) = map f xs"
  by (induction xs) simp_all

lemma armed_initially:
  "check_cooldown (last_report_usage initial_bot) (effective_chat_id command_in_chat_5) 1000
     REPORT_COOLDOWN = Armed [5 \<mapsto> 1000]"
  by (simp add: check_cooldown_def initial_bot_def command_in_chat_5_def)

section \<open>Claims about the report workflow\<close>

text \<open>
  C5. Take a \<open>/report\<close> that passes the cooldown check, finds duplicate sets and gets
  its header sent. Whatever the surface answers to the single sends, the run makes one
  \<open>send_video\<close> attempt for each of the first \<open>MAX_REPORT_VIDEOS\<close> sets, in the
  order of the query, items behind a failed one included. A sent video is stored as a
  \<open>video\<close> artifact; a failed one is followed by the error notice, stored as an
  \<open>error\<close> artifact only when that notice itself was sent. The header states the
  number of sets found and the closing line the number of videos sent.
\<close>

theorem C5_send_failure_does_not_abort:
  assumes "check_cooldown (last_report_usage s) (effective_chat_id u) t REPORT_COOLDOWN
             = Armed usage"
      and "repeated \<noteq> []"
      and "header_reply env = Some report_msg"
  shows "snd (report_command s u t repeated env) =
           Reply_report_header (length repeated) (Some report_msg)
           # concat (map (item_actions env (effective_chat_id u))
                      (zip [1..<Suc (min MAX_REPORT_VIDEOS (length repeated))]
                           (take MAX_REPORT_VIDEOS repeated)))
           @ [Log_report_completed
                (length (filter (\<lambda>i. send_video env i \<noteq> None)
                           [1..<Suc (min MAX_REPORT_VIDEOS (length repeated))]))]
       \<and> filter is_send (snd (report_command s u t repeated env)) =
           map (\<lambda>(i, unique_id, fid, total_count).
                  Send_video (effective_chat_id u) fid i total_count (send_video env i))
             (zip [1..<Suc (min MAX_REPORT_VIDEOS (length repeated))]
                  (take MAX_REPORT_VIDEOS repeated))
       \<and> map artifact (report_messages (fst (report_command s u t repeated env))) =
           map artifact (report_messages s)
           @ (effective_chat_id u, report_msg, ''header'', clock_iso env 0)
           # concat (map (item_messages env (effective_chat_id u))
                      [1..<Suc (min MAX_REPORT_VIDEOS (length repeated))])"
proof -
  note run = report_command_run [OF assms]
  have "filter is_send (snd (report_command s u t repeated env)) =
          concat (map (\<lambda>item. filter is_send (item_actions env (effective_chat_id u) item))
             (zip [1..<Suc (min MAX_REPORT_VIDEOS (length repeated))]
                  (take MAX_REPORT_VIDEOS repeated)))"
    by (simp add: run filter_concat comp_def)
  also have "\<dots> = map (\<lambda>(i, unique_id, fid, total_count).
                  Send_video (effective_chat_id u) fid i total_count (send_video env i))
             (zip [1..<Suc (min MAX_REPORT_VIDEOS (length repeated))]
                  (take MAX_REPORT_VIDEOS repeated))"
    by (simp only: filter_is_send_item_actions concat_map_singleton)
  finally show ?thesis
    by (simp add: run artifact_insert_report_messages artifact_def del: upt_Suc)
qed

text \<open>
  The scenario of the claim: three sets, the send of the second one fails. Items one and
  three are sent and stored, the notice for item two is stored as an error artifact, and
  the run reports 2 videos sent of 3 sets.
\<close>

theorem C5_second_of_three_fails_witness:
  "snd (report_command initial_bot command_in_chat_5 1000 three_sets second_fails) =
     [Reply_report_header 3 (Some 100),
      Send_video 5 ''file-A'' 1 3 (Some 101), Sleep RATE_LIMIT_DELAY,
      Send_video 5 ''file-B'' 2 2 None, Reply_could_not_send 2 (Some 202),
      Send_video 5 ''file-C'' 3 2 (Some 103), Sleep RATE_LIMIT_DELAY,
      Log_report_completed 2]
   \<and> map artifact
       (report_messages (fst (report_command initial_bot command_in_chat_5 1000 three_sets
          second_fails))) =
     [(5, 100, ''header'', ''t''), (5, 101, ''video'', ''t''), (5, 202, ''error'', ''t''),
      (5, 103, ''video'', ''t'')]"
proof -
  have a: "three_sets \<noteq> []"
    by (simp add: three_sets_def)
  have b: "header_reply second_fails = Some 100"
    by (simp add: second_fails_def)
  have c: "[1..<Suc (min MAX_REPORT_VIDEOS (length three_sets))] = [1, 2, 3]"
    by (simp add: MAX_REPORT_VIDEOS_def three_sets_def upt_rec)
  note run = C5_send_failure_does_not_abort [OF armed_initially a b]
  from run [THEN conjunct1] run [THEN conjunct2, THEN conjunct2]
  show ?thesis
    unfolding c
    by (simp add: MAX_REPORT_VIDEOS_def three_sets_def second_fails_def item_actions_def
          item_messages_def initial_bot_def command_in_chat_5_def)
qed

text \<open>
  C9, as the code has it. In every \<open>/report\<close> the pause of \<open>RATE_LIMIT_DELAY\<close>
  comes directly after each successful media send, the last one included, and nowhere
  else: not after a failed send, and not before the header, which is the first action of
  any run that sends one.
\<close>

theorem C9_delay_follows_every_sent_video:
  "delay_follows_sends (snd (report_command s u t repeated env))
   \<and> (Reply_report_header n h \<in> set (snd (report_command s u t repeated env))
        \<longrightarrow> hd (snd (report_command s u t repeated env)) = Reply_report_header n h)"
proof (cases "check_cooldown (last_report_usage s) (effective_chat_id u) t REPORT_COOLDOWN")
  case (Wait r)
  then show ?thesis by (simp add: report_command_def)
next
  case (Armed usage)
  show ?thesis
  proof (cases "repeated = []")
    case True
    with Armed show ?thesis by (simp add: report_command_def)
  next
    case False
    show ?thesis
    proof (cases "header_reply env")
      case None
      with Armed False show ?thesis by (auto simp: report_command_def)
    next
      case (Some report_msg)
      let ?items = "concat (map (item_actions env (effective_chat_id u))
                 (zip [1..<Suc (min MAX_REPORT_VIDEOS (length repeated))]
                      (take MAX_REPORT_VIDEOS repeated)))"
      have "delay_follows_sends ?items"
        by (rule delay_follows_sends_concat) (auto simp: delay_follows_sends_item_actions)
      then have "delay_follows_sends (?items @ [Log_report_completed k])" for k
        by (rule delay_follows_sends_append) simp
      moreover have "Reply_report_header n h \<notin> set ?items"
        by (auto simp: item_actions_no_header)
      ultimately show ?thesis
        by (auto simp: report_command_run [OF Armed False Some])
    qed
  qed
qed

theorem C9_delay_witness:
  "delay_follows_sends
     (snd (report_command initial_bot command_in_chat_5 1000 three_sets all_sent))
   \<and> hd (snd (report_command initial_bot command_in_chat_5 1000 three_sets all_sent))
       = Reply_report_header 3 (Some 100)
   \<and> length (filter is_sleep
       (snd (report_command initial_bot command_in_chat_5 1000 three_sets all_sent))) = 3"
proof -
  have tr: "snd (report_command initial_bot command_in_chat_5 1000 three_sets all_sent) =
     [Reply_report_header 3 (Some 100),
      Send_video 5 ''file-A'' 1 3 (Some 101), Sleep RATE_LIMIT_DELAY,
      Send_video 5 ''file-B'' 2 2 (Some 102), Sleep RATE_LIMIT_DELAY,
      Send_video 5 ''file-C'' 3 2 (Some 103), Sleep RATE_LIMIT_DELAY,
      Log_report_completed 3]"
    by (simp add: report_command_def check_cooldown_def initial_bot_def command_in_chat_5_def
          three_sets_def all_sent_def MAX_REPORT_VIDEOS_def)
  from C9_delay_follows_every_sent_video
         [of initial_bot command_in_chat_5 1000 three_sets all_sent 3 "Some 100"]
  show ?thesis
    by (simp add: tr)
qed

text \<open>
  C9 as stated excludes a pause after the last item. With a single duplicate set whose
  video is sent, the pause is the action right behind that last send.
\<close>

theorem C9_delay_after_last_item_counterexample:
  "snd (report_command initial_bot command_in_chat_5 1000 [(''A'', ''file-A'', 2)] all_sent) =
     [Reply_report_header 1 (Some 100),
      Send_video 5 ''file-A'' 1 2 (Some 101), Sleep RATE_LIMIT_DELAY,
      Log_report_completed 1]
   \<and> after_last_send
       (snd (report_command initial_bot command_in_chat_5 1000 [(''A'', ''file-A'', 2)] all_sent))
     = [Sleep RATE_LIMIT_DELAY, Log_report_completed 1]"
  by (simp add: report_command_def check_cooldown_def initial_bot_def command_in_chat_5_def
        all_sent_def MAX_REPORT_VIDEOS_def after_last_send_def)


section \<open>Facts about the report query\<close>

lemma videos_two_pairs:
  "videos two_pairs =
     [\<lparr>file_unique_id = ''A'', file_id = ''file-A'', count = 2, first_seen = ''t1'',
       chat_id = 1, message_id = 10\<rparr>,
      \<lparr>file_unique_id = ''A'', file_id = ''file-A'', count = 2, first_seen = ''t2'',
       chat_id = 1, message_id = 20\<rparr>,
      \<lparr>file_unique_id = ''B'', file_id = ''file-B'', count = 2, first_seen = ''t3'',
       chat_id = 1, message_id = 30\<rparr>,
      \<lparr>file_unique_id = ''B'', file_id = ''file-B'', count = 2, first_seen = ''t4'',
       chat_id = 1, message_id = 40\<rparr>]"
  by (simp add: two_pairs_def video_handler_def initial_bot_def update_A10_def update_A20_def
        update_B30_def update_B40_def insert_or_ignore_def update_count_def count_for_def
        video_key_def)

lemma set_repeated_keys: "set (repeated_keys vs) = {k. 1 < count_for vs k}"
proof -
  have "k \<in> set (map file_unique_id vs)" if "1 < count_for vs k" for k
  proof -
    from that have "filter (\<lambda>r. file_unique_id r = k) vs \<noteq> []"
      by (auto simp: count_for_def)
    then obtain r where "r \<in> set (filter (\<lambda>r. file_unique_id r = k) vs)"
      by (cases "filter (\<lambda>r. file_unique_id r = k) vs") auto
    then show ?thesis by auto
  qed
  then show ?thesis
    by (auto simp: repeated_keys_def)
qed

lemma distinct_repeated_keys: "distinct (repeated_keys vs)"
  by (simp add: repeated_keys_def)

lemma insort_key_lexicographic:
  fixes h :: "'a \<Rightarrow> 'b::linorder" and k :: "'a \<Rightarrow> 'c::order"
  assumes "sorted_wrt (\<lambda>a b. h a < h b \<or> h a = h b \<and> k a < k b) ys"
      and "\<forall>y \<in> set ys. k x < k y"
  shows "sorted_wrt (\<lambda>a b. h a < h b \<or> h a = h b \<and> k a < k b) (insort_key h x ys)"
  using assms
proof (induction ys)
  case Nil
  then show ?case by simp
next
  case (Cons y ys)
  show ?case
  proof (cases "h x \<le> h y")
    case True
    have "h x < h z \<or> h x = h z \<and> k x < k z" if "z \<in> set (y # ys)" for z
    proof -
      from that Cons.prems(1) have "h y \<le> h z"
        by auto
      with True have "h x \<le> h z"
        by simp
      moreover from that Cons.prems(2) have "k x < k z"
        by auto
      ultimately show ?thesis
        by auto
    qed
    with True Cons.prems(1) show ?thesis
      by simp
  next
    case False
    then have "h y < h x"
      by simp
    moreover from Cons have "sorted_wrt (\<lambda>a b. h a < h b \<or> h a = h b \<and> k a < k b)
        (insort_key h x ys)"
      by simp
    ultimately show ?thesis
      using False Cons.prems(1) by (auto simp: set_insort_key)
  qed
qed

lemma sort_key_lexicographic:
  fixes h :: "'a \<Rightarrow> 'b::linorder" and k :: "'a \<Rightarrow> 'c::order"
  assumes "sorted_wrt (\<lambda>a b. k a < k b) xs"
  shows "sorted_wrt (\<lambda>a b. h a < h b \<or> h a = h b \<and> k a < k b) (sort_key h xs)"
  using assms
proof (induction xs)
  case Nil
  then show ?case by simp
next
  case (Cons x xs)
  then have "sorted_wrt (\<lambda>a b. h a < h b \<or> h a = h b \<and> k a < k b) (sort_key h xs)"
    and "\<forall>y \<in> set (sort_key h xs). k x < k y"
    by simp_all
  then show ?case
    by (simp add: insort_key_lexicographic)
qed

lemma ties_by_key_report_rows: "ties_by_key (report_rows vs)"
proof -
  define mk where "mk = (\<lambda>k. (k, file_id (hd (filter (\<lambda>r. file_unique_id r = k) vs)),
    count_for vs k))"
  define h where "h = (\<lambda>row :: string \<times> string \<times> int. - snd (snd row))"
  have rows: "report_rows vs = sort_key h (map mk (sort (repeated_keys vs)))"
    by (simp add: report_rows_def mk_def h_def)
  have "sorted_wrt (<) (sort (repeated_keys vs))"
    by (simp add: strict_sorted_iff distinct_repeated_keys)
  then have "sorted_wrt (\<lambda>a b. fst a < fst b) (map mk (sort (repeated_keys vs)))"
    by (simp add: sorted_wrt_map mk_def)
  from sort_key_lexicographic [OF this, of h]
  have "sorted_wrt (\<lambda>a b. h a < h b \<or> h a = h b \<and> fst a < fst b) (report_rows vs)"
    by (simp add: rows)
  then have "sorted_wrt (\<lambda>a b. snd (snd b) < snd (snd a)
      \<or> snd (snd b) = snd (snd a) \<and> fst a < fst b) (report_rows vs)"
    by (rule sorted_wrt_mono_rel [rotated]) (auto simp: h_def)
  then show ?thesis
    by (simp add: ties_by_key_def)
qed

lemma set_report_rows:
  "set (report_rows vs) =
     (\<lambda>k. (k, file_id (hd (filter (\<lambda>r. file_unique_id r = k) vs)), count_for vs k))
       ` {k. 1 < count_for vs k}"
  by (simp add: report_rows_def set_repeated_keys)

lemma keys_report_rows: "set (map fst (report_rows vs)) = {k. 1 < count_for vs k}"
  by (force simp: set_report_rows)

lemma distinct_keys_report_rows: "distinct (map fst (report_rows vs))"
proof -
  define g where "g = map (\<lambda>k. (k, file_id (hd (filter (\<lambda>r. file_unique_id r = k) vs)),
      count_for vs k)) (sort (repeated_keys vs))"
  have rows: "report_rows vs = sort_key (\<lambda>row. - snd (snd row)) g"
    by (simp add: report_rows_def g_def)
  have "map fst g = sort (repeated_keys vs)"
    by (simp add: g_def comp_def)
  then have "distinct (map fst g)"
    by (simp add: distinct_repeated_keys)
  then have "distinct g" and "inj_on fst (set g)"
    by (simp_all add: distinct_map)
  then show ?thesis
    by (simp add: rows distinct_map)
qed

lemma report_rows_row:
  assumes "(unique_id, fid, total_count) \<in> set (report_rows vs)"
  shows "total_count = count_for vs unique_id" and "1 < total_count"
    and "\<exists>r \<in> set vs. file_unique_id r = unique_id \<and> file_id r = fid"
proof -
  from assms have k: "1 < count_for vs unique_id"
    and f: "fid = file_id (hd (filter (\<lambda>r. file_unique_id r = unique_id) vs))"
    and n: "total_count = count_for vs unique_id"
    by (auto simp: set_report_rows)
  from n show "total_count = count_for vs unique_id" .
  from k n show "1 < total_count" by simp
  from k have "filter (\<lambda>r. file_unique_id r = unique_id) vs \<noteq> []"
    by (auto simp: count_for_def)
  then have "hd (filter (\<lambda>r. file_unique_id r = unique_id) vs)
               \<in> set (filter (\<lambda>r. file_unique_id r = unique_id) vs)"
    by (rule hd_in_set)
  with f show "\<exists>r \<in> set vs. file_unique_id r = unique_id \<and> file_id r = fid"
    by auto
qed

lemma ties_by_key_unique:
  assumes "ties_by_key xs" and "ties_by_key ys" and "set xs = set ys"
  shows "xs = ys"
proof -
  define g where "g = (\<lambda>row :: string \<times> string \<times> int. (- snd (snd row), fst row))"
  have strict: "sorted_wrt (<) (map g zs)" if "ties_by_key zs" for zs
    using that by (simp add: ties_by_key_def sorted_wrt_map g_def less_prod_def)
       (erule sorted_wrt_mono_rel [rotated], auto)
  from strict [OF assms(1)] strict [OF assms(2)]
  have sx: "sorted (map g xs)" "distinct (map g xs)"
    and sy: "sorted (map g ys)" "distinct (map g ys)"
    by (simp_all add: strict_sorted_iff)
  have "set (map g xs) = set (map g ys)"
    using assms(3) by simp
  with sx sy have eq: "map g xs = map g ys"
    by (intro sorted_distinct_set_unique)
  from sx(2) have "inj_on g (set xs)"
    by (simp add: distinct_map)
  with assms(3) have "inj_on g (set xs \<union> set ys)"
    by simp
  with eq show ?thesis
    by (simp add: inj_on_map_eq_map)
qed

lemma report_rows_two_pairs:
  "report_rows (videos two_pairs) = [(''A'', ''file-A'', 2), (''B'', ''file-B'', 2)]"
  by (simp add: videos_two_pairs report_rows_def repeated_keys_def count_for_def)

section \<open>Claims about the report query\<close>

text \<open>
  C8. On every table the rows of the report query are exactly the keys stored more than
  once, each key once and with the number of its stored rows as \<open>total_count\<close>. They
  come in descending order of \<open>total_count\<close>, and by ascending key among rows of equal
  \<open>total_count\<close>. No other arrangement of the same rows has this order, so the order
  of the result is determined by the table.
\<close>

theorem C8_report_rows_ordered:
  "set (map fst (report_rows vs)) = {k. 1 < count_for vs k}
   \<and> distinct (map fst (report_rows vs))
   \<and> list_all (\<lambda>(unique_id, fid, total_count).
        total_count = count_for vs unique_id \<and> 1 < total_count) (report_rows vs)
   \<and> ties_by_key (report_rows vs)
   \<and> (ties_by_key repeated \<and> set repeated = set (report_rows vs)
        \<longrightarrow> repeated = report_rows vs)"
proof (intro conjI impI)
  show "set (map fst (report_rows vs)) = {k. 1 < count_for vs k}"
    by (rule keys_report_rows)
  show "distinct (map fst (report_rows vs))"
    by (rule distinct_keys_report_rows)
  show "list_all (\<lambda>(unique_id, fid, total_count).
        total_count = count_for vs unique_id \<and> 1 < total_count) (report_rows vs)"
    unfolding list_all_iff using report_rows_row(1,2) [of _ _ _ vs] by auto
  show "ties_by_key (report_rows vs)"
    by (rule ties_by_key_report_rows)
next
  assume "ties_by_key repeated \<and> set repeated = set (report_rows vs)"
  then show "repeated = report_rows vs"
    using ties_by_key_unique [OF _ ties_by_key_report_rows [of vs]] by blast
qed

theorem C8_report_rows_witness:
  "report_rows (videos two_pairs) = [(''A'', ''file-A'', 2), (''B'', ''file-B'', 2)]
   \<and> ties_by_key [(''A'', ''file-A'', 2), (''B'', ''file-B'', 2)]
   \<and> {k. 1 < count_for (videos two_pairs) k} = {''A'', ''B''}"
proof -
  note th = C8_report_rows_ordered [of "videos two_pairs" "[]"]
  from th [THEN conjunct1] th [THEN conjunct2, THEN conjunct2, THEN conjunct2, THEN conjunct1]
  show ?thesis
    by (simp add: report_rows_two_pairs)
qed

section \<open>Facts about the cleanup workflow\<close>

lemma two_pairs_eq:
  "two_pairs = \<lparr>videos = [row_A10, row_A20, row_B30, row_B40], report_messages = [],
     report_seq = 0, last_report_usage = Map.empty, last_delete_usage = Map.empty\<rparr>"
  by (simp add: two_pairs_def video_handler_def initial_bot_def update_A10_def update_A20_def
        update_B30_def update_B40_def insert_or_ignore_def update_count_def count_for_def
        video_key_def row_A10_def row_A20_def row_B30_def row_B40_def)

lemma duplicate_rows_two_pairs:
  "duplicate_rows [row_A10, row_A20, row_B30, row_B40]
     = [(''A'', 10, 1), (''A'', 20, 1), (''B'', 30, 1), (''B'', 40, 1)]"
  by (simp add: duplicate_rows_def repeated_keys_def count_for_def video_key_def
        less_eq_prod_def row_A10_def row_A20_def row_B30_def row_B40_def)

subsection \<open>The two loops\<close>

lemma delete_reports_eq:
  "delete_reports dm chat n ids (d, tr) =
     (d + length (filter dm [n..<n + length ids]),
      tr @ map (\<lambda>(j, msg). Delete_report_message chat msg (dm j)) (zip [n..<n + length ids] ids))"
proof (induction ids arbitrary: n d tr)
  case Nil
  then show ?case by simp
next
  case (Cons msg ids)
  have upt: "[n..<Suc (n + length ids)] = n # [Suc n..<Suc (n + length ids)]"
    by (rule upt_conv_Cons) simp
  show ?case
    by (simp add: Cons.IH upt del: upt_Suc)
qed

lemma delete_loop_eq:
  "delete_loop dm n rows l (d, vtd, tr) =
     (d + length (filter (\<lambda>(k, m, c, ok). ok) (attempts dm n rows l)),
      vtd @ map (\<lambda>(k, m, c, ok). (k, m)) (filter (\<lambda>(k, m, c, ok). ok) (attempts dm n rows l)),
      tr @ map (\<lambda>(k, m, c, ok). Delete_duplicate_message k m c ok) (attempts dm n rows l))"
proof (induction rows arbitrary: n l d vtd tr)
  case Nil
  then show ?case by simp
next
  case (Cons row rows)
  obtain k m c where row: "row = (k, m, c)" by (cases row)
  show ?case
    unfolding row by (simp add: Cons.IH)
qed

lemma duplicate_attempts_append [simp]:
  "duplicate_attempts (xs @ ys) = duplicate_attempts xs @ duplicate_attempts ys"
  by (simp add: duplicate_attempts_def)

lemma duplicate_attempts_Cons:
  "duplicate_attempts (a # xs) = duplicate_attempt a @ duplicate_attempts xs"
  by (simp add: duplicate_attempts_def)

lemma duplicate_attempts_Nil [simp]: "duplicate_attempts [] = []"
  by (simp add: duplicate_attempts_def)

lemma duplicate_attempts_reports [simp]:
  "duplicate_attempts (map (\<lambda>(j, msg). Delete_report_message chat msg (dm j)) xs) = []"
  by (induction xs) (auto simp: duplicate_attempts_Cons)

lemma duplicate_attempts_duplicates [simp]:
  "duplicate_attempts (map (\<lambda>(k, m, c, ok). Delete_duplicate_message k m c ok) A) = A"
  by (induction A) (auto simp: duplicate_attempts_Cons)

lemma in_duplicate_attempts:
  "(k, m, c, ok) \<in> set (duplicate_attempts tr) \<longleftrightarrow> Delete_duplicate_message k m c ok \<in> set tr"
proof (induction tr)
  case Nil
  then show ?case by simp
next
  case (Cons a tr)
  then show ?case by (cases a) (auto simp: duplicate_attempts_Cons)
qed

subsection \<open>The attempts\<close>

lemma attempts_subset:
  "(k, m, c, ok) \<in> set (attempts dm n rows l) \<Longrightarrow> (k, m, c) \<in> set rows"
  by (induction dm n rows l rule: attempts.induct) (auto split: if_splits)

lemma attempts_distinct:
  "distinct (map (\<lambda>a. (fst a, fst (snd a))) rows)
     \<Longrightarrow> distinct (map (\<lambda>a. (fst a, fst (snd a))) (attempts dm n rows l))"
proof (induction dm n rows l rule: attempts.induct)
  case (1 dm n l)
  then show ?case by simp
next
  case (2 dm n k m c rest l)
  have "(k, m) \<notin> (\<lambda>a. (fst a, fst (snd a))) ` set (attempts dm n' rest l')" for n' l'
  proof
    assume "(k, m) \<in> (\<lambda>a. (fst a, fst (snd a))) ` set (attempts dm n' rest l')"
    then obtain c' ok where "(k, m, c', ok) \<in> set (attempts dm n' rest l')"
      by auto
    then have "(k, m, c') \<in> set rest"
      by (rule attempts_subset)
    then have "(k, m) \<in> (\<lambda>a. (fst a, fst (snd a))) ` set rest"
      by force
    with "2.prems" show False by simp
  qed
  with 2 show ?case by simp
qed

lemma attempts_after_smaller:
  assumes "sorted_wrt (\<lambda>a b. (fst a, fst (snd a)) < (fst b, fst (snd b))) (y # rows)"
      and "l = Some (fst y)"
      and "(k, m, c, ok) \<in> set (attempts dm n rows l)"
  shows "\<exists>row \<in> set (y # rows). fst row = k \<and> fst (snd row) < m"
  using assms
proof (induction rows arbitrary: y l n)
  case Nil
  then show ?case by simp
next
  case (Cons row rows)
  obtain k' m' c' where row: "row = (k', m', c')" by (cases row)
  have sorted_tail: "sorted_wrt (\<lambda>a b. (fst a, fst (snd a)) < (fst b, fst (snd b))) (row # rows)"
    using Cons.prems(1) by simp
  show ?case
  proof (cases "Some k' \<noteq> l")
    case True
    with Cons.prems(3) have "(k, m, c, ok) \<in> set (attempts dm n rows (Some k'))"
      by (simp add: row)
    from Cons.IH [OF sorted_tail _ this] show ?thesis
      by (auto simp: row)
  next
    case False
    then have same: "k' = fst y"
      using Cons.prems(2) by simp
    from Cons.prems(3) False
    consider "(k, m, c, ok) = (k', m', c', dm n)"
      | "(k, m, c, ok) \<in> set (attempts dm (Suc n) rows l)"
      by (auto simp: row)
    then show ?thesis
    proof cases
      case 1
      from Cons.prems(1) have "(fst y, fst (snd y)) < (k', m')"
        by (simp add: row)
      with same have "fst (snd y) < m'"
        by (simp add: less_prod_def)
      with 1 same show ?thesis by auto
    next
      case 2
      have "l = Some (fst row)"
        using Cons.prems(2) same by (simp add: row)
      from Cons.IH [OF sorted_tail this 2] show ?thesis
        by auto
    qed
  qed
qed

lemma attempts_None_smaller:
  assumes "sorted_wrt (\<lambda>a b. (fst a, fst (snd a)) < (fst b, fst (snd b))) rows"
      and "(k, m, c, ok) \<in> set (attempts dm n rows None)"
  shows "\<exists>row \<in> set rows. fst row = k \<and> fst (snd row) < m"
proof (cases rows)
  case Nil
  with assms(2) show ?thesis by simp
next
  case (Cons y rest)
  obtain k' m' c' where y: "y = (k', m', c')" by (cases y)
  from assms(2) have "(k, m, c, ok) \<in> set (attempts dm n rest (Some (fst y)))"
    by (simp add: Cons y)
  from attempts_after_smaller [OF assms(1) [unfolded Cons] refl this]
  show ?thesis by (simp add: Cons)
qed


subsection \<open>The rows of the duplicate query\<close>

lemma duplicate_rows_from_table:
  "(k, m, c) \<in> set (duplicate_rows vs)
     \<Longrightarrow> \<exists>r \<in> set vs. file_unique_id r = k \<and> message_id r = m \<and> chat_id r = c"
  by (auto simp: duplicate_rows_def)

lemma keys_duplicate_rows:
  "map (\<lambda>a. (fst a, fst (snd a))) (duplicate_rows vs)
     = map video_key (sort_key video_key
         (filter (\<lambda>r. file_unique_id r \<in> set (repeated_keys vs)) vs))"
  by (simp add: duplicate_rows_def video_key_def comp_def)

lemma distinct_map_sort_key:
  "distinct (map f xs) \<Longrightarrow> distinct (map f (sort_key f xs))"
  by (simp add: distinct_map)

lemma duplicate_rows_distinct:
  assumes "primary_key_ok vs"
  shows "distinct (map (\<lambda>a. (fst a, fst (snd a))) (duplicate_rows vs))"
proof -
  from assms have "distinct (map video_key
      (filter (\<lambda>r. file_unique_id r \<in> set (repeated_keys vs)) vs))"
    by (simp add: primary_key_ok_def distinct_map_filter)
  then show ?thesis
    unfolding keys_duplicate_rows by (rule distinct_map_sort_key)
qed

lemma duplicate_rows_sorted:
  assumes "primary_key_ok vs"
  shows "sorted_wrt (\<lambda>a b. (fst a, fst (snd a)) < (fst b, fst (snd b))) (duplicate_rows vs)"
proof -
  have "sorted (map (\<lambda>a. (fst a, fst (snd a))) (duplicate_rows vs))"
    unfolding keys_duplicate_rows by (rule sorted_sort_key)
  with duplicate_rows_distinct [OF assms]
  have "sorted_wrt (<) (map (\<lambda>a. (fst a, fst (snd a))) (duplicate_rows vs))"
    by (simp add: strict_sorted_iff)
  then show ?thesis
    by (simp add: sorted_wrt_map)
qed

subsection \<open>What the attempts do to the table\<close>

lemma in_delete_videos:
  "r \<in> set (delete_videos L vs) \<longleftrightarrow> r \<in> set vs \<and> video_key r \<notin> set L"
  by (auto simp: delete_videos_def)

lemma succeeded_keys:
  "kk \<in> set (map (\<lambda>(k, m, c, ok). (k, m)) (filter (\<lambda>(k, m, c, ok). ok) A))
     \<longleftrightarrow> (\<exists>c. (fst kk, snd kk, c, True) \<in> set A)"
  by (cases kk) force

lemma kept_not_attempted:
  assumes pk: "primary_key_ok vs"
      and kept: "kept_occurrence vs r"
  shows "(file_unique_id r, message_id r, c, ok)
           \<notin> set (attempts dm n (duplicate_rows vs) None)"
proof
  assume "(file_unique_id r, message_id r, c, ok) \<in> set (attempts dm n (duplicate_rows vs) None)"
  from attempts_None_smaller [OF duplicate_rows_sorted [OF pk] this]
  obtain k' m' c' where row: "(k', m', c') \<in> set (duplicate_rows vs)"
    and k': "k' = file_unique_id r" and m': "m' < message_id r"
    by auto
  from duplicate_rows_from_table [OF row]
  obtain r' where "r' \<in> set vs" "file_unique_id r' = k'" "message_id r' = m'"
    by auto
  with kept k' have "message_id r \<le> m'"
    by (auto simp: kept_occurrence_def)
  with m' show False by simp
qed

lemma attempted_row:
  assumes pk: "primary_key_ok vs"
      and r: "r \<in> set vs"
      and a: "(file_unique_id r, message_id r, c, ok) \<in> set (attempts dm n (duplicate_rows vs) l)"
  shows "c = chat_id r"
proof -
  from a have "(file_unique_id r, message_id r, c) \<in> set (duplicate_rows vs)"
    by (rule attempts_subset)
  from duplicate_rows_from_table [OF this]
  obtain r' where r': "r' \<in> set vs" "file_unique_id r' = file_unique_id r"
    "message_id r' = message_id r" "chat_id r' = c"
    by auto
  from pk have "inj_on video_key (set vs)"
    by (simp add: primary_key_ok_def distinct_map)
  with r r' have "r' = r"
    by (auto simp: inj_on_def video_key_def)
  with r' show ?thesis by simp
qed

lemma attempted_once:
  assumes pk: "primary_key_ok vs"
      and a: "(k, m, c, ok) \<in> set (attempts dm n (duplicate_rows vs) l)"
      and b: "(k, m, c', ok') \<in> set (attempts dm n (duplicate_rows vs) l)"
  shows "ok' = ok"
proof -
  have "inj_on (\<lambda>a. (fst a, fst (snd a))) (set (attempts dm n (duplicate_rows vs) l))"
    using attempts_distinct [OF duplicate_rows_distinct [OF pk], of dm n l]
    by (simp add: distinct_map)
  from inj_onD [OF this _ a b] show ?thesis by simp
qed

subsection \<open>The whole command\<close>

lemma delete_duplicates_run:
  assumes "check_cooldown (last_delete_usage s) (effective_chat_id u) t DELETE_COOLDOWN
             = Armed usage"
      and "get_member env = Member_status status"
      and "status \<in> {''administrator'', ''creator''}"
  shows "\<exists>n. duplicate_attempts (snd (delete_duplicates s u t env))
               = attempts (delete_message env) n (duplicate_rows (videos s)) None
           \<and> fst (delete_duplicates s u t env) =
               s\<lparr>last_delete_usage := usage,
                 report_messages :=
                   filter (\<lambda>m. rm_chat_id m \<noteq> effective_chat_id u) (report_messages s),
                 videos := delete_videos
                   (map (\<lambda>(k, m, c, ok). (k, m)) (filter (\<lambda>(k, m, c, ok). ok)
                      (attempts (delete_message env) n (duplicate_rows (videos s)) None)))
                   (videos s)\<rparr>"
  using assms
  by (auto simp: delete_duplicates_def Let_def delete_reports_eq delete_loop_eq
        duplicate_attempts_Cons)

lemma delete_duplicates_any:
  "(duplicate_attempts (snd (delete_duplicates s u t env)) = []
      \<and> videos (fst (delete_duplicates s u t env)) = videos s)
   \<or> (\<exists>n. duplicate_attempts (snd (delete_duplicates s u t env))
               = attempts (delete_message env) n (duplicate_rows (videos s)) None
           \<and> videos (fst (delete_duplicates s u t env)) =
               delete_videos
                 (map (\<lambda>(k, m, c, ok). (k, m)) (filter (\<lambda>(k, m, c, ok). ok)
                    (attempts (delete_message env) n (duplicate_rows (videos s)) None)))
                 (videos s))"
proof (cases "check_cooldown (last_delete_usage s) (effective_chat_id u) t DELETE_COOLDOWN")
  case (Wait r)
  then show ?thesis
    by (simp add: delete_duplicates_def duplicate_attempts_Cons)
next
  case (Armed usage)
  show ?thesis
  proof (cases "get_member env")
    case Lookup_failed
    with Armed show ?thesis
      by (simp add: delete_duplicates_def Let_def duplicate_attempts_Cons)
  next
    case (Member_status status)
    show ?thesis
    proof (cases "status \<in> {''administrator'', ''creator''}")
      case True
      from delete_duplicates_run [OF Armed Member_status True]
      obtain n where n: "duplicate_attempts (snd (delete_duplicates s u t env))
               = attempts (delete_message env) n (duplicate_rows (videos s)) None"
        "fst (delete_duplicates s u t env) =
               s\<lparr>last_delete_usage := usage,
                 report_messages :=
                   filter (\<lambda>m. rm_chat_id m \<noteq> effective_chat_id u) (report_messages s),
                 videos := delete_videos
                   (map (\<lambda>(k, m, c, ok). (k, m)) (filter (\<lambda>(k, m, c, ok). ok)
                      (attempts (delete_message env) n (duplicate_rows (videos s)) None)))
                   (videos s)\<rparr>"
        by blast
      show ?thesis
        by (rule disjI2, rule exI [of _ n]) (simp add: n)
    next
      case False
      with Armed Member_status show ?thesis
        by (simp add: delete_duplicates_def Let_def duplicate_attempts_Cons)
    qed
  qed
qed

lemma ex_kept_occurrence:
  assumes "r0 \<in> set vs"
  shows "\<exists>r. kept_occurrence vs r \<and> file_unique_id r = file_unique_id r0"
proof -
  let ?S = "{r \<in> set vs. file_unique_id r = file_unique_id r0}"
  have fin: "finite (message_id ` ?S)" and ne: "message_id ` ?S \<noteq> {}"
    using assms by auto
  from Min_in [OF fin ne] obtain r where r: "r \<in> ?S" "message_id r = Min (message_id ` ?S)"
    by auto
  have "message_id r \<le> message_id r'" if "r' \<in> ?S" for r'
    using Min_le [OF fin, of "message_id r'"] that r(2) by simp
  with r(1) show ?thesis
    by (auto simp: kept_occurrence_def)
qed


lemma count_for_pos: "r \<in> set vs \<Longrightarrow> 0 < count_for vs (file_unique_id r)"
  by (auto simp: count_for_def filter_empty_conv)

lemma count_for_pos_ex: "0 < count_for vs k \<Longrightarrow> \<exists>r \<in> set vs. file_unique_id r = k"
proof -
  assume "0 < count_for vs k"
  then have "filter (\<lambda>r. file_unique_id r = k) vs \<noteq> []"
    by (auto simp: count_for_def)
  then show ?thesis
    by (auto simp: filter_empty_conv)
qed

lemma kept_survives:
  assumes pk: "primary_key_ok (videos s)"
      and kept: "kept_occurrence (videos s) r"
  shows "Delete_duplicate_message (file_unique_id r) (message_id r) c ok
           \<notin> set (snd (delete_duplicates s u t env))"
    and "r \<in> set (videos (fst (delete_duplicates s u t env)))"
proof -
  from kept have r: "r \<in> set (videos s)"
    by (simp add: kept_occurrence_def)
  from delete_duplicates_any [of s u t env]
  have "Delete_duplicate_message (file_unique_id r) (message_id r) c ok
           \<notin> set (snd (delete_duplicates s u t env))
        \<and> r \<in> set (videos (fst (delete_duplicates s u t env)))"
  proof (elim disjE exE conjE)
    assume "duplicate_attempts (snd (delete_duplicates s u t env)) = []"
      and "videos (fst (delete_duplicates s u t env)) = videos s"
    with r in_duplicate_attempts [of "file_unique_id r" "message_id r" c ok
        "snd (delete_duplicates s u t env)"]
    show ?thesis by simp
  next
    fix n
    assume a: "duplicate_attempts (snd (delete_duplicates s u t env))
                 = attempts (delete_message env) n (duplicate_rows (videos s)) None"
      and v: "videos (fst (delete_duplicates s u t env)) =
               delete_videos
                 (map (\<lambda>(k, m, c, ok). (k, m)) (filter (\<lambda>(k, m, c, ok). ok)
                    (attempts (delete_message env) n (duplicate_rows (videos s)) None)))
                 (videos s)"
    have none: "(file_unique_id r, message_id r, c', ok')
                  \<notin> set (attempts (delete_message env) n (duplicate_rows (videos s)) None)"
      for c' ok'
      by (rule kept_not_attempted [OF pk kept])
    have "Delete_duplicate_message (file_unique_id r) (message_id r) c ok
            \<notin> set (snd (delete_duplicates s u t env))"
      using none [of c ok] in_duplicate_attempts [of "file_unique_id r" "message_id r" c ok
        "snd (delete_duplicates s u t env)"]
      by (simp add: a)
    moreover have "r \<in> set (videos (fst (delete_duplicates s u t env)))"
      unfolding v in_delete_videos succeeded_keys
      using r none by (simp add: video_key_def)
    ultimately show ?thesis ..
  qed
  then show "Delete_duplicate_message (file_unique_id r) (message_id r) c ok
           \<notin> set (snd (delete_duplicates s u t env))"
    and "r \<in> set (videos (fst (delete_duplicates s u t env)))"
    by simp_all
qed

lemma with_reports_eq:
  "with_reports = \<lparr>videos = [row_A10, row_A20, row_B30, row_B40],
     report_messages =
        [\<lparr>rm_id = 1, rm_chat_id = 5, rm_message_id = 100, report_type = ''header'',
          created_at = ''t5''\<rparr>,
         \<lparr>rm_id = 2, rm_chat_id = 6, rm_message_id = 70, report_type = ''header'',
          created_at = ''t6''\<rparr>],
     report_seq = 2, last_report_usage = Map.empty, last_delete_usage = Map.empty\<rparr>"
  by (simp add: with_reports_def two_pairs_eq)

lemma primary_key_ok_two_pairs: "primary_key_ok [row_A10, row_A20, row_B30, row_B40]"
  by (simp add: primary_key_ok_def video_key_def row_A10_def row_A20_def row_B30_def
        row_B40_def)

lemma video_key_rows:
  "video_key row_A10 = (''A'', 10)" "video_key row_A20 = (''A'', 20)"
  "video_key row_B30 = (''B'', 30)" "video_key row_B40 = (''B'', 40)"
  by (simp_all add: video_key_def row_A10_def row_A20_def row_B30_def row_B40_def)

lemma run_all_deleted:
  "delete_duplicates two_pairs command_in_chat_5 1000 admin_all_deleted =
     (\<lparr>videos = [row_A10, row_B30], report_messages = [], report_seq = 0,
       last_report_usage = Map.empty, last_delete_usage = [5 \<mapsto> 1000]\<rparr>,
      [Get_member 7 (Member_status ''administrator''),
       Delete_duplicate_message ''A'' 20 1 True, Delete_duplicate_message ''B'' 40 1 True,
       Reply_deleted 2 0 2])"
  unfolding two_pairs_eq
  by (simp add: delete_duplicates_def check_cooldown_def command_in_chat_5_def
        admin_all_deleted_def Let_def duplicate_rows_two_pairs delete_videos_def
        video_key_rows)

lemma run_second_fails:
  "delete_duplicates with_reports command_in_chat_5 1000 creator_second_fails =
     (\<lparr>videos = [row_A10, row_A20, row_B30],
       report_messages =
         [\<lparr>rm_id = 2, rm_chat_id = 6, rm_message_id = 70, report_type = ''header'',
           created_at = ''t6''\<rparr>],
       report_seq = 2,
       last_report_usage = Map.empty, last_delete_usage = [5 \<mapsto> 1000]\<rparr>,
      [Get_member 7 (Member_status ''creator''),
       Delete_report_message 5 100 True,
       Delete_duplicate_message ''A'' 20 1 False, Delete_duplicate_message ''B'' 40 1 True,
       Reply_deleted 2 1 1])"
  unfolding with_reports_eq
  by (simp add: delete_duplicates_def check_cooldown_def command_in_chat_5_def
        creator_second_fails_def Let_def duplicate_rows_two_pairs delete_videos_def
        video_key_rows)

section \<open>Claims about the cleanup workflow\<close>

text \<open>
  C1. Let the table satisfy its primary key. In every run of \<open>delete_duplicates\<close>,
  whatever the surface answers and so also when every delete succeeds, the kept
  occurrence of a key (the row with the least \<open>message_id\<close> among the rows of its
  \<open>file_unique_id\<close>) is never the row a delete of the second loop is issued for, and
  it is still stored afterwards; hence every key that had a stored row before the run has
  one after it.
\<close>

theorem C1_kept_occurrence_survives:
  assumes "primary_key_ok (videos s)"
  shows "(kept_occurrence (videos s) r \<longrightarrow>
            (\<forall>c ok. Delete_duplicate_message (file_unique_id r) (message_id r) c ok
                      \<notin> set (snd (delete_duplicates s u t env)))
            \<and> r \<in> set (videos (fst (delete_duplicates s u t env))))
       \<and> (0 < count_for (videos s) k \<longrightarrow>
            0 < count_for (videos (fst (delete_duplicates s u t env))) k)"
proof (intro conjI impI allI)
  fix c ok
  assume "kept_occurrence (videos s) r"
  then show "Delete_duplicate_message (file_unique_id r) (message_id r) c ok
               \<notin> set (snd (delete_duplicates s u t env))"
    by (rule kept_survives(1) [OF assms])
next
  assume "kept_occurrence (videos s) r"
  then show "r \<in> set (videos (fst (delete_duplicates s u t env)))"
    by (rule kept_survives(2) [OF assms])
next
  assume "0 < count_for (videos s) k"
  then obtain r0 where "r0 \<in> set (videos s)" "file_unique_id r0 = k"
    by (auto dest: count_for_pos_ex)
  with ex_kept_occurrence [of r0 "videos s"]
  obtain r' where r': "kept_occurrence (videos s) r'" "file_unique_id r' = k"
    by auto
  from kept_survives(2) [OF assms r'(1)]
  have "r' \<in> set (videos (fst (delete_duplicates s u t env)))" .
  from count_for_pos [OF this] r'(2)
  show "0 < count_for (videos (fst (delete_duplicates s u t env))) k"
    by simp
qed

theorem C1_kept_occurrence_witness:
  "kept_occurrence (videos two_pairs) row_A10
   \<and> row_A10 \<in> set (videos (fst (delete_duplicates two_pairs command_in_chat_5 1000
        admin_all_deleted)))
   \<and> 0 < count_for (videos (fst (delete_duplicates two_pairs command_in_chat_5 1000
        admin_all_deleted))) ''A''
   \<and> videos (fst (delete_duplicates two_pairs command_in_chat_5 1000 admin_all_deleted))
       = [row_A10, row_B30]"
proof -
  have pk: "primary_key_ok (videos two_pairs)"
    by (simp add: two_pairs_eq primary_key_ok_two_pairs)
  have kept: "kept_occurrence (videos two_pairs) row_A10"
    by (simp add: two_pairs_eq kept_occurrence_def row_A10_def row_A20_def row_B30_def
          row_B40_def)
  have pos: "0 < count_for (videos two_pairs) ''A''"
    by (simp add: two_pairs_eq count_for_def row_A10_def)
  note th = C1_kept_occurrence_survives
      [OF pk, of row_A10 command_in_chat_5 1000 admin_all_deleted "''A''"]
  from th [THEN conjunct1, rule_format, OF kept] th [THEN conjunct2, rule_format, OF pos] kept
  show ?thesis
    by (simp add: run_all_deleted)
qed

text \<open>
  C4. Let the table satisfy its primary key, and take a run of \<open>delete_duplicates\<close>
  that passes the cooldown check and the admin check. Afterwards the store holds no
  report artifact of the command's chat (and the artifacts of other chats as before),
  whatever the single deletes answered. A stored occurrence is gone from the table
  exactly when the delete issued for it succeeded; one whose delete failed is still
  stored, and no row is added.
\<close>

theorem C4_cleanup_reconciles_store:
  assumes pk: "primary_key_ok (videos s)"
      and armed: "check_cooldown (last_delete_usage s) (effective_chat_id u) t DELETE_COOLDOWN
                    = Armed usage"
      and member: "get_member env = Member_status status"
      and admin: "status \<in> {''administrator'', ''creator''}"
  shows "report_messages (fst (delete_duplicates s u t env))
           = filter (\<lambda>m. rm_chat_id m \<noteq> effective_chat_id u) (report_messages s)
       \<and> effective_chat_id u
           \<notin> rm_chat_id ` set (report_messages (fst (delete_duplicates s u t env)))
       \<and> (\<forall>r \<in> set (videos s).
             (r \<notin> set (videos (fst (delete_duplicates s u t env))))
             = (Delete_duplicate_message (file_unique_id r) (message_id r) (chat_id r) True
                 \<in> set (snd (delete_duplicates s u t env))))
       \<and> (\<forall>r \<in> set (videos s).
             Delete_duplicate_message (file_unique_id r) (message_id r) (chat_id r) False
               \<in> set (snd (delete_duplicates s u t env))
             \<longrightarrow> r \<in> set (videos (fst (delete_duplicates s u t env))))
       \<and> set (videos (fst (delete_duplicates s u t env))) \<subseteq> set (videos s)"
proof -
  let ?R = "delete_duplicates s u t env"
  from delete_duplicates_run [OF armed member admin]
  obtain n where a: "duplicate_attempts (snd ?R)
               = attempts (delete_message env) n (duplicate_rows (videos s)) None"
    and st: "fst ?R =
               s\<lparr>last_delete_usage := usage,
                 report_messages :=
                   filter (\<lambda>m. rm_chat_id m \<noteq> effective_chat_id u) (report_messages s),
                 videos := delete_videos
                   (map (\<lambda>(k, m, c, ok). (k, m)) (filter (\<lambda>(k, m, c, ok). ok)
                      (attempts (delete_message env) n (duplicate_rows (videos s)) None)))
                   (videos s)\<rparr>"
    by blast
  let ?A = "attempts (delete_message env) n (duplicate_rows (videos s)) None"
  have tr: "Delete_duplicate_message k m c ok \<in> set (snd ?R) \<longleftrightarrow> (k, m, c, ok) \<in> set ?A"
    for k m c ok
    using in_duplicate_attempts [of k m c ok "snd ?R"] by (simp add: a)
  have v: "videos (fst ?R) = delete_videos
             (map (\<lambda>(k, m, c, ok). (k, m)) (filter (\<lambda>(k, m, c, ok). ok) ?A)) (videos s)"
    by (simp add: st)
  have 1: "report_messages (fst ?R)
             = filter (\<lambda>m. rm_chat_id m \<noteq> effective_chat_id u) (report_messages s)"
    by (simp add: st)
  then have 2: "effective_chat_id u \<notin> rm_chat_id ` set (report_messages (fst ?R))"
    by auto
  have removed: "(r \<notin> set (videos (fst ?R)))
      = (Delete_duplicate_message (file_unique_id r) (message_id r) (chat_id r) True
           \<in> set (snd ?R))"
    if r: "r \<in> set (videos s)" for r
  proof -
    have "(r \<notin> set (videos (fst ?R)))
            = (\<exists>c. (file_unique_id r, message_id r, c, True) \<in> set ?A)"
      unfolding v in_delete_videos succeeded_keys using r by (simp add: video_key_def)
    also have "\<dots> = ((file_unique_id r, message_id r, chat_id r, True) \<in> set ?A)"
      using attempted_row [OF pk r] by blast
    finally show ?thesis
      by (simp add: tr)
  qed
  have failed: "r \<in> set (videos (fst ?R))"
    if r: "r \<in> set (videos s)"
      and f: "Delete_duplicate_message (file_unique_id r) (message_id r) (chat_id r) False
                \<in> set (snd ?R)" for r
  proof (rule ccontr)
    assume "r \<notin> set (videos (fst ?R))"
    with removed [OF r]
    have "(file_unique_id r, message_id r, chat_id r, True) \<in> set ?A"
      by (simp add: tr)
    moreover from f have "(file_unique_id r, message_id r, chat_id r, False) \<in> set ?A"
      by (simp add: tr)
    ultimately show False
      using attempted_once [OF pk] by blast
  qed
  have 5: "set (videos (fst ?R)) \<subseteq> set (videos s)"
    unfolding v by (auto simp: in_delete_videos)
  from 1 2 removed failed 5 show ?thesis
    by blast
qed

theorem C4_cleanup_witness:
  "effective_chat_id command_in_chat_5
     \<notin> rm_chat_id ` set (report_messages
         (fst (delete_duplicates with_reports command_in_chat_5 1000 creator_second_fails)))
   \<and> snd (delete_duplicates with_reports command_in_chat_5 1000 creator_second_fails) =
     [Get_member 7 (Member_status ''creator''),
      Delete_report_message 5 100 True,
      Delete_duplicate_message ''A'' 20 1 False, Delete_duplicate_message ''B'' 40 1 True,
      Reply_deleted 2 1 1]
   \<and> videos (fst (delete_duplicates with_reports command_in_chat_5 1000 creator_second_fails))
       = [row_A10, row_A20, row_B30]
   \<and> map rm_chat_id (report_messages
       (fst (delete_duplicates with_reports command_in_chat_5 1000 creator_second_fails)))
       = [6]"
proof -
  have pk: "primary_key_ok (videos with_reports)"
    by (simp add: with_reports_eq primary_key_ok_two_pairs)
  have armed: "check_cooldown (last_delete_usage with_reports)
      (effective_chat_id command_in_chat_5) 1000 DELETE_COOLDOWN = Armed [5 \<mapsto> 1000]"
    by (simp add: with_reports_eq check_cooldown_def command_in_chat_5_def)
  have member: "get_member creator_second_fails = Member_status ''creator''"
    by (simp add: creator_second_fails_def)
  have admin: "''creator'' \<in> {''administrator'', ''creator''}"
    by simp
  have run: "snd (delete_duplicates with_reports command_in_chat_5 1000 creator_second_fails) =
     [Get_member 7 (Member_status ''creator''),
      Delete_report_message 5 100 True,
      Delete_duplicate_message ''A'' 20 1 False, Delete_duplicate_message ''B'' 40 1 True,
      Reply_deleted 2 1 1]
   \<and> videos (fst (delete_duplicates with_reports command_in_chat_5 1000 creator_second_fails))
       = [row_A10, row_A20, row_B30]
   \<and> map rm_chat_id (report_messages
       (fst (delete_duplicates with_reports command_in_chat_5 1000 creator_second_fails)))
       = [6]"
    by (simp add: run_second_fails)
  note th = C4_cleanup_reconciles_store [OF pk armed member admin]
  from th [THEN conjunct2, THEN conjunct1] run show ?thesis
    by blast
qed


end
